theory Spec2Isabelle
  imports Complex_Main "HOL-Library.Sublist"
begin

section \<open>Python strings\<close>

text \<open>
  A Python \<open>str\<close> is a sequence of Unicode code points; it is modelled as a list of
  natural numbers. \<open>str\<close> turns an ASCII literal into that representation. The Greek
  literals of the program are given by their code points.
\<close>

type_synonym pystr = "nat list"

definition str :: "string \<Rightarrow> pystr" where
  "str s = map of_char s"

text \<open>The code points for which \<open>str.isspace\<close> holds: the characters \<open>str.strip()\<close> removes.\<close>

definition isspace :: "nat \<Rightarrow> bool" where
  "isspace c \<longleftrightarrow> (9 \<le> c \<and> c \<le> 13) \<or> (28 \<le> c \<and> c \<le> 32) \<or> c = 133 \<or> c = 160
     \<or> c = 5760 \<or> (8192 \<le> c \<and> c \<le> 8202) \<or> c = 8232 \<or> c = 8233 \<or> c = 8239
     \<or> c = 8287 \<or> c = 12288"

definition strip :: "pystr \<Rightarrow> pystr" where
  "strip s = rev (dropWhile isspace (rev (dropWhile isspace s)))"

definition startswith :: "pystr \<Rightarrow> pystr \<Rightarrow> bool" where
  "startswith s p \<longleftrightarrow> take (length p) s = p"

text \<open>\<open>contains sub s\<close> is Python's \<open>sub in s\<close> on strings.\<close>

fun contains :: "pystr \<Rightarrow> pystr \<Rightarrow> bool" where
  "contains sub [] = (sub = [])"
| "contains sub (c # cs) = (startswith (c # cs) sub \<or> contains sub cs)"

text \<open>The line boundaries of \<open>str.splitlines()\<close>; a carriage return followed by a line
  feed is one boundary, and a trailing boundary opens no further line.\<close>

definition is_linebreak :: "nat \<Rightarrow> bool" where
  "is_linebreak c \<longleftrightarrow> (10 \<le> c \<and> c \<le> 13) \<or> (28 \<le> c \<and> c \<le> 30) \<or> c = 133
     \<or> c = 8232 \<or> c = 8233"

fun splitlines_from :: "pystr \<Rightarrow> pystr \<Rightarrow> pystr list" where
  "splitlines_from cur [] = (if cur = [] then [] else [rev cur])"
| "splitlines_from cur [c] =
     (if is_linebreak c then [rev cur] else [rev (c # cur)])"
| "splitlines_from cur (c # d # cs) =
     (if c = 13 \<and> d = 10 then rev cur # splitlines_from [] cs
      else if is_linebreak c then rev cur # splitlines_from [] (d # cs)
      else splitlines_from (c # cur) (d # cs))"

definition splitlines :: "pystr \<Rightarrow> pystr list" where
  "splitlines s = splitlines_from [] s"

text \<open>\<open>split_on sep s\<close> is \<open>s.split(sep)\<close> for a separator of one character.\<close>

fun split_on :: "nat \<Rightarrow> pystr \<Rightarrow> pystr list" where
  "split_on sep [] = [[]]"
| "split_on sep (c # cs) =
     (if c = sep then [] # split_on sep cs
      else (case split_on sep cs of [] \<Rightarrow> [[c]] | p # ps \<Rightarrow> (c # p) # ps))"

fun join :: "pystr \<Rightarrow> pystr list \<Rightarrow> pystr" where
  "join sep [] = []"
| "join sep [x] = x"
| "join sep (x # y # ys) = x @ sep @ join sep (y # ys)"

text \<open>\<open>replace_char c t s\<close> is \<open>s.replace(c, t)\<close> for a pattern \<open>c\<close> of one character.\<close>

definition replace_char :: "nat \<Rightarrow> pystr \<Rightarrow> pystr \<Rightarrow> pystr" where
  "replace_char c t s = concat (map (\<lambda>x. if x = c then t else [x]) s)"

text \<open>The decimal rendering of an integer, as an f-string formats it.\<close>

fun digits :: "nat \<Rightarrow> pystr" where
  "digits n = (if n < 10 then [48 + n] else digits (n div 10) @ [48 + n mod 10])"

declare digits.simps [simp del]

definition str_of_int :: "int \<Rightarrow> pystr" where
  "str_of_int i = (if i < 0 then 45 # digits (nat (- i)) else digits (nat i))"

text \<open>Truthiness of an \<open>Optional[str]\<close>, and \<open>a or b\<close> on such values.\<close>

definition truthy_str :: "pystr option \<Rightarrow> bool" where
  "truthy_str s = (case s of None \<Rightarrow> False | Some t \<Rightarrow> t \<noteq> [])"

definition or_str :: "pystr option \<Rightarrow> pystr option \<Rightarrow> pystr option" where
  "or_str a b = (if truthy_str a then a else b)"

section \<open>Dynamically typed values and exceptions\<close>

text \<open>
  What \<open>json.loads\<close> can return. A dictionary is an association list read with
  \<open>map_of\<close>. \<open>PFloat\<close> carries the value of a finite float, \<open>PNonFinite\<close> stands for the
  \<open>NaN\<close> and \<open>Infinity\<close> literals that \<open>json.loads\<close> accepts.
\<close>

datatype pyval =
    PNone
  | PBool bool
  | PInt int
  | PFloat rat
  | PNonFinite
  | PStr pystr
  | PList "pyval list"
  | PDict "(pystr \<times> pyval) list"

text \<open>
  The exceptions of the program, all of them instances of \<open>Exception\<close> (what
  \<open>except Exception\<close> catches). \<open>OtherException\<close> carries a tag for any further class.
\<close>

datatype exn =
    TimeoutExpired | TypeError | AttributeError | IndexError | ValueError | UnicodeEncodeError
  | OtherException nat

fun truthy :: "pyval \<Rightarrow> bool" where
  "truthy PNone = False"
| "truthy (PBool b) = b"
| "truthy (PInt i) = (i \<noteq> 0)"
| "truthy (PFloat q) = (q \<noteq> 0)"
| "truthy PNonFinite = True"
| "truthy (PStr s) = (s \<noteq> [])"
| "truthy (PList xs) = (xs \<noteq> [])"
| "truthy (PDict d) = (d \<noteq> [])"

text \<open>\<open>d.get(k)\<close> on a dictionary.\<close>

definition dict_get :: "(pystr \<times> pyval) list \<Rightarrow> pystr \<Rightarrow> pyval" where
  "dict_get d k = (case map_of d k of None \<Rightarrow> PNone | Some v \<Rightarrow> v)"

text \<open>\<open>f.get(k)\<close> on any value: only a dictionary has the method.\<close>

fun py_get :: "pyval \<Rightarrow> pystr \<Rightarrow> exn + pyval" where
  "py_get (PDict d) k = Inr (dict_get d k)"
| "py_get v k = Inl AttributeError"

text \<open>\<open>a or b\<close> on values.\<close>

definition py_or :: "pyval \<Rightarrow> pyval \<Rightarrow> pyval" where
  "py_or a b = (if truthy a then a else b)"

text \<open>\<open>s in v\<close> for a string \<open>s\<close>: substring of a string, element of a list, key of a
  dictionary, and a \<open>TypeError\<close> on everything else.\<close>

fun py_in :: "pystr \<Rightarrow> pyval \<Rightarrow> exn + bool" where
  "py_in s (PStr t) = Inr (contains s t)"
| "py_in s (PList xs) = Inr (PStr s \<in> set xs)"
| "py_in s (PDict d) = Inr (s \<in> fst ` set d)"
| "py_in s v = Inl TypeError"

text \<open>The elements a \<open>for\<close> loop over a value visits.\<close>

fun py_iter :: "pyval \<Rightarrow> exn + pyval list" where
  "py_iter (PList xs) = Inr xs"
| "py_iter (PDict d) = Inr (map (\<lambda>kv. PStr (fst kv)) d)"
| "py_iter (PStr s) = Inr (map (\<lambda>c. PStr [c]) s)"
| "py_iter v = Inl TypeError"

section \<open>The Python runtime and the external resolver\<close>

text \<open>
  Library functions whose result depends on the Unicode database or on a parser are
  parameters of the model:
  \<^item> \<open>str_lower\<close> is \<open>str.lower()\<close>;
  \<^item> \<open>json_loads\<close> is \<open>json.loads\<close>;
  \<^item> \<open>expire_re_search s\<close> is group 1 of \<open>EXPIRE_RE.search(s)\<close>, for the pattern
    \<open>expire/(\d+)\<close> compiled with \<open>re.IGNORECASE\<close>, or \<open>None\<close> without a match;
  \<^item> \<open>int_of_str\<close> is \<open>int()\<close> on a string.
\<close>

record py_runtime =
  str_lower :: "pystr \<Rightarrow> pystr"
  json_loads :: "pystr \<Rightarrow> exn + pyval"
  expire_re_search :: "pystr \<Rightarrow> pystr option"
  int_of_str :: "pystr \<Rightarrow> exn + int"

text \<open>
  An instance that agrees with CPython on ASCII text, for a given \<open>json.loads\<close>. \<open>int()\<close>
  raises \<open>ValueError\<close> on a string that is not a number and, from CPython 3.11 on, on a
  string of more than 4300 digits.
\<close>

definition ascii_lower :: "pystr \<Rightarrow> pystr" where
  "ascii_lower s = map (\<lambda>c. if 65 \<le> c \<and> c \<le> 90 then c + 32 else c) s"

definition is_digit :: "nat \<Rightarrow> bool" where
  "is_digit c \<longleftrightarrow> 48 \<le> c \<and> c \<le> 57"

fun expire_search_ascii :: "pystr \<Rightarrow> pystr option" where
  "expire_search_ascii [] = None"
| "expire_search_ascii (c # cs) =
     (if ascii_lower (take 7 (c # cs)) = str ''expire/'' \<and> takeWhile is_digit (drop 7 (c # cs)) \<noteq> []
      then Some (takeWhile is_digit (drop 7 (c # cs)))
      else expire_search_ascii cs)"

definition int_of_ascii :: "pystr \<Rightarrow> exn + int" where
  "int_of_ascii s =
     (if s \<noteq> [] \<and> list_all is_digit s \<and> length s \<le> 4300
      then Inr (foldl (\<lambda>a d. 10 * a + int (d - 48)) 0 s)
      else Inl ValueError)"

definition ascii_runtime :: "(pystr \<Rightarrow> exn + pyval) \<Rightarrow> py_runtime" where
  "ascii_runtime loads =
     \<lparr> str_lower = ascii_lower, json_loads = loads,
       expire_re_search = expire_search_ascii, int_of_str = int_of_ascii \<rparr>"

text \<open>
  The external resolver is the \<open>yt-dlp\<close> subprocess. What a worker does to the outside
  is a trace of events: the commands it runs and the delays it sleeps. The behaviour of
  the outside is a \<open>resolver\<close>: the outcome of the \<open>n\<close>-th subprocess of a worker, given
  its command line and timeout, is a completed process or an exception.
\<close>

record completed_process =
  stdout :: pystr
  stderr :: pystr

datatype event = Run "pystr list" int | Sleep rat

type_synonym trace = "event list"

type_synonym resolver = "nat \<Rightarrow> pystr list \<Rightarrow> int \<Rightarrow> exn + completed_process"

fun is_run :: "event \<Rightarrow> bool" where
  "is_run (Run cmd t) = True"
| "is_run (Sleep d) = False"

definition runs :: "trace \<Rightarrow> nat" where
  "runs tr = length (filter is_run tr)"

section \<open>Helpers\<close>

definition safe_attr :: "pystr option \<Rightarrow> pystr" where
  "safe_attr s = replace_char 34 (str ''%22'') (case s of None \<Rightarrow> [] | Some t \<Rightarrow> t)"

definition normalize_input_line :: "pystr \<Rightarrow> pystr" where
  "normalize_input_line line0 =
     (let line = strip line0 in
      if line = [] then []
      else if \<not> (startswith line (str ''http://'') \<or> startswith line (str ''https://''))
        then str ''https://www.youtube.com/watch?v='' @ line
      else line)"

definition run_cmd :: "resolver \<Rightarrow> pystr list \<Rightarrow> int \<Rightarrow> trace \<Rightarrow> (exn + completed_process) \<times> trace" where
  "run_cmd orc cmd timeout tr = (orc (runs tr) cmd timeout, tr @ [Run cmd timeout])"

definition run_yt_dlp_cmd ::
  "resolver \<Rightarrow> pystr list \<Rightarrow> pystr option \<Rightarrow> pystr option \<Rightarrow> int \<Rightarrow> trace
     \<Rightarrow> (exn + completed_process) \<times> trace" where
  "run_yt_dlp_cmd orc args_list cookies cookies_from_browser timeout tr =
     (let cmd = [str ''yt-dlp''];
          cmd = (case cookies of
                   Some c \<Rightarrow> if c \<noteq> [] then cmd @ [str ''--cookies'', c]
                             else (case cookies_from_browser of
                                     Some b \<Rightarrow> if b \<noteq> [] then cmd @ [str ''--cookies-from-browser'', b] else cmd
                                   | None \<Rightarrow> cmd)
                 | None \<Rightarrow> (case cookies_from_browser of
                              Some b \<Rightarrow> if b \<noteq> [] then cmd @ [str ''--cookies-from-browser'', b] else cmd
                            | None \<Rightarrow> cmd));
          cmd = cmd @ args_list
      in run_cmd orc cmd timeout tr)"

text \<open>
  The loop of \<open>run_yt_dlp_cmd_with_retries\<close>, from the value of \<open>attempt\<close> at the head
  of an iteration. The handlers of \<open>TimeoutExpired\<close> and of \<open>Exception\<close> have the same
  body. The delay \<open>backoff * attempt\<close> is a float in the source (1.5 by default) and a
  rational here.
\<close>

function retry_loop ::
  "resolver \<Rightarrow> pystr list \<Rightarrow> pystr option \<Rightarrow> pystr option \<Rightarrow> int \<Rightarrow> int \<Rightarrow> rat \<Rightarrow> int \<Rightarrow> trace
     \<Rightarrow> (exn + completed_process) \<times> trace" where
  "retry_loop orc args_list cookies cfb timeout retries backoff attempt tr =
     (case run_yt_dlp_cmd orc args_list cookies cfb timeout tr of
        (Inr proc, tr1) \<Rightarrow> (Inr proc, tr1)
      | (Inl e, tr1) \<Rightarrow>
          (if attempt + 1 > retries then (Inl e, tr1)
           else retry_loop orc args_list cookies cfb timeout retries backoff (attempt + 1)
                  (tr1 @ [Sleep (backoff * of_int (attempt + 1))])))"
  by pat_completeness auto
termination
  by (relation "measure (\<lambda>(orc, args_list, cookies, cfb, timeout, retries, backoff, attempt, tr).
        nat (retries - attempt))") auto

declare retry_loop.simps [simp del]

definition run_yt_dlp_cmd_with_retries ::
  "resolver \<Rightarrow> pystr list \<Rightarrow> pystr option \<Rightarrow> pystr option \<Rightarrow> int \<Rightarrow> int \<Rightarrow> rat \<Rightarrow> trace
     \<Rightarrow> (exn + completed_process) \<times> trace" where
  "run_yt_dlp_cmd_with_retries orc args_list cookies cfb timeout retries backoff tr =
     retry_loop orc args_list cookies cfb timeout retries backoff 0 tr"

definition first_http_line :: "pystr \<Rightarrow> pystr option" where
  "first_http_line text =
     (if text = [] then None
      else List.find (\<lambda>l. startswith l (str ''http://'') \<or> startswith l (str ''https://''))
             (map strip (splitlines text)))"


text \<open>
  A \<open>timedelta\<close> is a whole number of microseconds, and \<open>delta.total_seconds()\<close> is the
  true division of that number by \<open>10**6\<close>: the double nearest to the quotient, ties
  going to the even mantissa. A double is given here by an integer mantissa of at most
  53 bits and a binary exponent, \<open>(m, sh)\<close> standing for \<open>m * 2 ^ sh\<close>. The quotients of
  the program lie in the normal range of the doubles, since a \<open>timedelta\<close> is at least
  one microsecond and less than \<open>10 ^ 9\<close> days.
\<close>

type_synonym timedelta = int

type_synonym double = "int \<times> int"

text \<open>\<open>int.bit_length()\<close>\<close>

fun bit_length :: "nat \<Rightarrow> nat" where
  "bit_length n = (if n = 0 then 0 else Suc (bit_length (n div 2)))"

declare bit_length.simps [simp del]

text \<open>The quotient \<open>n / d\<close> rounded to the nearest integer, a tie going to the even one.\<close>

definition round_half_even :: "int \<Rightarrow> int \<Rightarrow> int" where
  "round_half_even n d =
     (let f = n div d; r = n mod d in
      if 2 * r < d then f
      else if d < 2 * r then f + 1
      else if even f then f else f + 1)"

text \<open>The exponent \<open>e\<close> with \<open>2 ^ e \<le> a / b < 2 ^ (e + 1)\<close>, for positive \<open>a\<close> and \<open>b\<close>.\<close>

definition binary_exponent :: "int \<Rightarrow> int \<Rightarrow> int" where
  "binary_exponent a b =
     (let d = int (bit_length (nat a)) - int (bit_length (nat b))
      in if (if 0 \<le> d then b * 2 ^ nat d \<le> a else b \<le> a * 2 ^ nat (- d)) then d else d - 1)"

text \<open>\<open>a / b\<close> on integers, for a positive \<open>b\<close>: the quotient with a mantissa of 53 bits.\<close>

definition true_divide :: "int \<Rightarrow> int \<Rightarrow> double" where
  "true_divide a b =
     (if a = 0 then (0, 0)
      else if a < 0 then
        (let sh = binary_exponent (- a) b - 52
         in (- (if sh \<le> 0 then round_half_even (- a * 2 ^ nat (- sh)) b
                else round_half_even (- a) (b * 2 ^ nat sh)), sh))
      else
        (let sh = binary_exponent a b - 52
         in (if sh \<le> 0 then round_half_even (a * 2 ^ nat (- sh)) b
             else round_half_even a (b * 2 ^ nat sh), sh)))"

text \<open>\<open>int()\<close> on a double truncates towards zero.\<close>

definition int_of_double :: "double \<Rightarrow> int" where
  "int_of_double x =
     (case x of (m, sh) \<Rightarrow>
        if 0 \<le> sh then m * 2 ^ nat sh
        else if 0 \<le> m then m div 2 ^ nat (- sh)
        else - ((- m) div 2 ^ nat (- sh)))"

definition total_seconds :: "timedelta \<Rightarrow> double" where
  "total_seconds delta = true_divide delta 1000000"

text \<open>\<open>int(delta.total_seconds())\<close>\<close>

definition whole_seconds :: "timedelta \<Rightarrow> int" where
  "whole_seconds delta = int_of_double (total_seconds delta)"

definition expires_now :: pystr where
  "expires_now = [955, 942, 947, 949, 953, 32, 964, 974, 961, 945]"

definition word_hour :: "int \<Rightarrow> pystr" where
  "word_hour n = (if n = 1 then [974, 961, 945] else [974, 961, 949, 962])"

definition word_minute :: "int \<Rightarrow> pystr" where
  "word_minute n = (if n = 1 then [955, 949, 960, 964, 972] else [955, 949, 960, 964, 940])"

definition word_second :: "int \<Rightarrow> pystr" where
  "word_second n =
     (if n = 1 then [948, 949, 965, 964, 949, 961, 972, 955, 949, 960, 964, 959]
      else [948, 949, 965, 964, 949, 961, 972, 955, 949, 960, 964, 945])"

definition word_in :: pystr where
  "word_in = [963, 949, 32]"

definition word_and :: pystr where
  "word_and = [32, 954, 945, 953, 32]"

definition human_readable_delta_greek_full :: "timedelta \<Rightarrow> pystr" where
  "human_readable_delta_greek_full delta =
     (let total = whole_seconds delta in
      if total \<le> 0 then expires_now
      else
        (let hours = total div 3600;
             rem = total mod 3600;
             minutes = rem div 60;
             seconds = rem mod 60;
             parts = [];
             parts = (if hours \<noteq> 0 then parts @ [str_of_int hours @ str '' '' @ word_hour hours] else parts);
             parts = (if minutes \<noteq> 0 then parts @ [str_of_int minutes @ str '' '' @ word_minute minutes] else parts);
             parts = (if seconds \<noteq> 0 then parts @ [str_of_int seconds @ str '' '' @ word_second seconds] else parts)
         in word_in @ join word_and parts))"

section \<open>Metadata and stream resolution\<close>

text \<open>\<open>(proc.stdout or proc.stderr or "")\<close>\<close>

definition proc_output :: "completed_process \<Rightarrow> pystr" where
  "proc_output proc =
     (if stdout proc \<noteq> [] then stdout proc else if stderr proc \<noteq> [] then stderr proc else [])"

text \<open>\<open>parts[k].strip() if len(parts) >= k + 1 and parts[k].strip() else None\<close>\<close>

definition meta_field :: "pystr list \<Rightarrow> nat \<Rightarrow> pystr option" where
  "meta_field parts k =
     (if length parts \<ge> k + 1 \<and> strip (parts ! k) \<noteq> [] then Some (strip (parts ! k)) else None)"

definition print_format :: pystr where
  "print_format = str ''%(id)s'' @ [9] @ str ''%(title)s'' @ [9] @ str ''%(thumbnail)s''"

definition get_minimal_meta ::
  "resolver \<Rightarrow> pystr \<Rightarrow> int \<Rightarrow> pystr option \<Rightarrow> pystr option \<Rightarrow> int \<Rightarrow> trace
     \<Rightarrow> (pystr option \<times> pystr option \<times> pystr option) \<times> trace" where
  "get_minimal_meta orc url timeout cookies cfb retries tr =
     (case run_yt_dlp_cmd_with_retries orc [str ''--print'', print_format, url] cookies cfb timeout
             retries (3 / 2) tr of
        (Inl e, tr1) \<Rightarrow> ((None, None, None), tr1)
      | (Inr proc, tr1) \<Rightarrow>
          (let out = strip (proc_output proc) in
           if out = [] then ((None, None, None), tr1)
           else (case splitlines out of
                   [] \<Rightarrow> ((None, None, None), tr1)
                 | first # others \<Rightarrow>
                     (let parts = split_on 9 first
                      in ((meta_field parts 0, meta_field parts 1, meta_field parts 2), tr1)))))"

text \<open>
  The loops of the JSON strategy. Each returns the value its \<open>return\<close> statement
  returns, \<open>None\<close> when the loop ends without returning, or the exception an iteration
  raises. \<open>first_url_loop\<close> is the body shared by the loop over \<open>requested_formats\<close> and
  the last loop over \<open>formats\<close>; \<open>m3u8_loop\<close> is the loop that prefers m3u8 entries.
\<close>

fun first_url_loop :: "pyval list \<Rightarrow> exn + pyval option" where
  "first_url_loop [] = Inr None"
| "first_url_loop (f # fs) =
     (case py_get f (str ''url'') of
        Inl e \<Rightarrow> Inl e
      | Inr u \<Rightarrow> if truthy u then Inr (Some u) else first_url_loop fs)"

fun m3u8_loop :: "pyval list \<Rightarrow> exn + pyval option" where
  "m3u8_loop [] = Inr None"
| "m3u8_loop (f # fs) =
     (case py_get f (str ''url'') of
        Inl e \<Rightarrow> Inl e
      | Inr urlf \<Rightarrow>
          if \<not> truthy urlf then m3u8_loop fs
          else (case py_get f (str ''ext'') of
                  Inl e \<Rightarrow> Inl e
                | Inr ext \<Rightarrow>
                    (case py_in (str ''.m3u8'') (py_or ext (PStr [])) of
                       Inl e \<Rightarrow> Inl e
                     | Inr True \<Rightarrow> Inr (Some urlf)
                     | Inr False \<Rightarrow>
                         (case py_get f (str ''protocol'') of
                            Inl e \<Rightarrow> Inl e
                          | Inr protocol \<Rightarrow>
                              (case py_in (str ''m3u8'') (py_or protocol (PStr [])) of
                                 Inl e \<Rightarrow> Inl e
                               | Inr True \<Rightarrow> Inr (Some urlf)
                               | Inr False \<Rightarrow> m3u8_loop fs)))))"

text \<open>The statements under \<open>parsed = json.loads(out)\<close>.\<close>

definition scan_parsed :: "pyval \<Rightarrow> exn + pyval option" where
  "scan_parsed parsed =
     (case parsed of
        PDict d \<Rightarrow>
          if truthy (dict_get d (str ''url'')) then Inr (Some (dict_get d (str ''url'')))
          else (case (case dict_get d (str ''requested_formats'') of
                        PList req \<Rightarrow> if req \<noteq> [] then first_url_loop req else Inr None
                      | other \<Rightarrow> Inr None) of
                  Inl e \<Rightarrow> Inl e
                | Inr (Some u) \<Rightarrow> Inr (Some u)
                | Inr None \<Rightarrow>
                    (case py_iter (py_or (dict_get d (str ''formats'')) (PList [])) of
                       Inl e \<Rightarrow> Inl e
                     | Inr fmts \<Rightarrow>
                         (case m3u8_loop fmts of
                            Inl e \<Rightarrow> Inl e
                          | Inr (Some u) \<Rightarrow> Inr (Some u)
                          | Inr None \<Rightarrow> first_url_loop fmts)))
      | other \<Rightarrow> Inr None)"

text \<open>
  The three \<open>try\<close> blocks of \<open>get_stream_url_with_ytdlp\<close>. A block gives \<open>Some\<close> of the
  value it returns from the function, and \<open>None\<close> when control leaves it without a
  return, at its end or through \<open>except Exception: pass\<close>.
\<close>

definition try_default ::
  "resolver \<Rightarrow> pystr \<Rightarrow> int \<Rightarrow> pystr option \<Rightarrow> pystr option \<Rightarrow> int \<Rightarrow> trace
     \<Rightarrow> pyval option \<times> trace" where
  "try_default orc url timeout cookies cfb retries tr =
     (case run_yt_dlp_cmd_with_retries orc [str ''-g'', url] cookies cfb timeout retries (3 / 2) tr of
        (Inl e, tr1) \<Rightarrow> (None, tr1)
      | (Inr proc, tr1) \<Rightarrow>
          (let out = strip (proc_output proc);
               m = first_http_line out
           in (if truthy_str m then (case m of Some l \<Rightarrow> Some (PStr l) | None \<Rightarrow> None) else None, tr1)))"

definition try_format ::
  "resolver \<Rightarrow> pystr \<Rightarrow> pystr \<Rightarrow> int \<Rightarrow> pystr option \<Rightarrow> pystr option \<Rightarrow> int \<Rightarrow> trace
     \<Rightarrow> pyval option \<times> trace" where
  "try_format orc url fmt timeout cookies cfb retries tr =
     (if fmt \<noteq> [] then
        (case run_yt_dlp_cmd_with_retries orc [str ''-f'', fmt, str ''-g'', url] cookies cfb timeout
                retries (3 / 2) tr of
           (Inl e, tr1) \<Rightarrow> (None, tr1)
         | (Inr proc, tr1) \<Rightarrow>
             (let out = strip (proc_output proc);
                  m = first_http_line out
              in (if truthy_str m then (case m of Some l \<Rightarrow> Some (PStr l) | None \<Rightarrow> None) else None, tr1)))
      else (None, tr))"

definition try_json ::
  "py_runtime \<Rightarrow> resolver \<Rightarrow> pystr \<Rightarrow> int \<Rightarrow> pystr option \<Rightarrow> pystr option \<Rightarrow> int \<Rightarrow> trace
     \<Rightarrow> pyval option \<times> trace" where
  "try_json rt orc url timeout cookies cfb retries tr =
     (case run_yt_dlp_cmd_with_retries orc [str ''-j'', url] cookies cfb timeout retries (3 / 2) tr of
        (Inl e, tr1) \<Rightarrow> (None, tr1)
      | (Inr proc, tr1) \<Rightarrow>
          (let out = strip (proc_output proc)
           in (if out \<noteq> [] then
                 (case json_loads rt out of
                    Inl e \<Rightarrow> None
                  | Inr parsed \<Rightarrow> (case scan_parsed parsed of Inl e \<Rightarrow> None | Inr r \<Rightarrow> r))
               else None, tr1)))"

text \<open>
  \<open>get_stream_url_with_ytdlp\<close>: the value returned (\<open>PNone\<close> for \<open>None\<close>), as the right
  injection since the function has a caller that catches its exceptions, and the trace.
\<close>

definition get_stream_url_with_ytdlp ::
  "py_runtime \<Rightarrow> resolver \<Rightarrow> pystr \<Rightarrow> pystr \<Rightarrow> int \<Rightarrow> pystr option \<Rightarrow> pystr option \<Rightarrow> int \<Rightarrow> trace
     \<Rightarrow> (exn + pyval) \<times> trace" where
  "get_stream_url_with_ytdlp rt orc url fmt timeout cookies cfb retries tr =
     (case try_default orc url timeout cookies cfb retries tr of
        (Some m, tr1) \<Rightarrow> (Inr m, tr1)
      | (None, tr1) \<Rightarrow>
          (case try_format orc url fmt timeout cookies cfb retries tr1 of
             (Some m, tr2) \<Rightarrow> (Inr m, tr2)
           | (None, tr2) \<Rightarrow>
               (case try_json rt orc url timeout cookies cfb retries tr2 of
                  (Some u, tr3) \<Rightarrow> (Inr u, tr3)
                | (None, tr3) \<Rightarrow> (Inr PNone, tr3))))"

section \<open>EXTINF builders\<close>

definition extinf_line :: "pystr option \<Rightarrow> pystr option \<Rightarrow> pystr \<Rightarrow> pystr" where
  "extinf_line meta_id thumbnail title =
     (let attrs = [];
          attrs = (if truthy_str meta_id
                   then attrs @ [str ''tvg-id='' @ [34] @ (case meta_id of Some i \<Rightarrow> i | None \<Rightarrow> []) @ [34]]
                   else attrs);
          attrs = (if truthy_str thumbnail
                   then attrs @ [str ''tvg-logo='' @ [34] @ safe_attr thumbnail @ [34]]
                   else attrs);
          attrs_str = (if attrs \<noteq> [] then str '' '' @ join (str '' '') attrs else []);
          title_safe = strip (replace_char 10 (str '' '') title)
      in str ''#EXTINF:-1'' @ attrs_str @ str '','' @ title_safe @ [10])"

definition build_entry_extinf :: "pystr option \<Rightarrow> pystr option \<Rightarrow> pystr \<Rightarrow> pystr" where
  "build_entry_extinf meta_id thumbnail title = extinf_line meta_id thumbnail title"

definition links_expiry :: pystr where
  "links_expiry = [923, 942, 958, 951, 32, 963, 965, 957, 948, 941, 963, 956, 969, 957, 58, 32]"

definition not_available :: pystr where
  "not_available = [956, 951, 32, 948, 953, 945, 952, 941, 963, 953, 956, 951]"

definition build_special_extinf_only_expire ::
  "pystr \<Rightarrow> pystr \<Rightarrow> pystr option \<Rightarrow> pystr option \<Rightarrow> pystr" where
  "build_special_extinf_only_expire expire_str rel_str special_meta_id special_thumbnail =
     (let title = (if expire_str \<noteq> [] then links_expiry @ expire_str @ str '' ('' @ rel_str @ str '')''
                   else links_expiry @ not_available)
      in extinf_line special_meta_id special_thumbnail title)"

section \<open>The buffered worker\<close>

text \<open>The eight configuration arguments of the worker, which \<open>main\<close> passes unchanged to
  every worker.\<close>

record settings =
  fmt :: pystr
  timeout :: int
  cookies :: "pystr option"
  cookies_from_browser :: "pystr option"
  fallback_watch :: bool
  no_metadata :: bool
  full_metadata :: bool
  retries :: int

text \<open>The tuple a worker returns.\<close>

record resolved =
  input_line :: pystr
  meta_id :: "pystr option"
  title :: "pystr option"
  thumbnail :: "pystr option"
  stream_url :: "pystr option"
  expire_epoch :: "int option"

text \<open>
  The fifth component of the tuple when the endpoint found is falsy: \<open>None\<close> or the
  empty string (\<open>get_stream_url_with_ytdlp\<close> returns \<open>None\<close> or a truthy value, so the
  endpoint is \<open>None\<close> there).
\<close>

fun falsy_endpoint :: "pyval \<Rightarrow> pystr option" where
  "falsy_endpoint (PStr s) = Some s"
| "falsy_endpoint v = None"

text \<open>The expiry statements of the worker, for a stream endpoint that is a string: the
  search of \<open>EXPIRE_RE\<close> and the guarded conversion of its group.\<close>

definition expire_of :: "py_runtime \<Rightarrow> pystr \<Rightarrow> int option" where
  "expire_of rt u =
     (case expire_re_search rt u of
        None \<Rightarrow> None
      | Some g \<Rightarrow> (case int_of_str rt g of Inl e \<Rightarrow> None | Inr n \<Rightarrow> Some n))"

text \<open>The metadata statements of the worker: the defaults and what \<open>get_minimal_meta\<close>
  overrides, as \<open>(meta_id, title, thumbnail)\<close>.\<close>

definition worker_meta ::
  "resolver \<Rightarrow> pystr \<Rightarrow> settings \<Rightarrow> trace
     \<Rightarrow> (pystr option \<times> pystr option \<times> pystr option) \<times> trace" where
  "worker_meta orc line cfg tr =
     (let watch_url = normalize_input_line line in
      if \<not> no_metadata cfg then
        (case get_minimal_meta orc watch_url (timeout cfg) (cookies cfg)
                (cookies_from_browser cfg) (retries cfg) tr of
           ((meta_id_m, title_m, thumbnail_m), t) \<Rightarrow>
             (if truthy_str meta_id_m \<or> truthy_str title_m \<or> truthy_str thumbnail_m
              then (or_str meta_id_m None, or_str title_m (Some line), or_str thumbnail_m None)
              else (None, Some line, None), t))
      else ((None, Some line, None), tr))"

text \<open>The stream statements of the worker: the guarded call of
  \<open>get_stream_url_with_ytdlp\<close> and the fallback to the watch URL.\<close>

definition worker_stream ::
  "py_runtime \<Rightarrow> resolver \<Rightarrow> pystr \<Rightarrow> settings \<Rightarrow> trace \<Rightarrow> pyval \<times> trace" where
  "worker_stream rt orc line cfg tr =
     (let watch_url = normalize_input_line line;
          got = (case get_stream_url_with_ytdlp rt orc watch_url (fmt cfg) (timeout cfg) (cookies cfg)
                        (cookies_from_browser cfg) (retries cfg) tr of
                   (Inl e, t) \<Rightarrow> (PNone, t)
                 | (Inr v, t) \<Rightarrow> (v, t))
      in (if \<not> truthy (fst got) \<and> fallback_watch cfg then PStr watch_url else fst got, snd got))"

definition check_url_entry_buffered ::
  "py_runtime \<Rightarrow> resolver \<Rightarrow> pystr \<Rightarrow> settings \<Rightarrow> trace \<Rightarrow> (exn + resolved) \<times> trace" where
  "check_url_entry_buffered rt orc raw_line cfg tr =
     (let line = strip raw_line in
      if line = [] then
        (Inr \<lparr> input_line = line, meta_id = None, title = None, thumbnail = None,
               stream_url = None, expire_epoch = None \<rparr>, tr)
      else
        (case worker_meta orc line cfg tr of
           ((mid, ttl, thumb), tr1) \<Rightarrow>
             (case worker_stream rt orc line cfg tr1 of
                (found, tr2) \<Rightarrow>
                  (if truthy found then
                     (case found of
                        PStr u \<Rightarrow>
                          (Inr \<lparr> input_line = line, meta_id = mid, title = ttl, thumbnail = thumb,
                                 stream_url = Some u,
                                 expire_epoch = expire_of rt u \<rparr>,
                           tr2)
                      | other \<Rightarrow> (Inl TypeError, tr2))
                   else
                     (Inr \<lparr> input_line = line, meta_id = mid, title = ttl, thumbnail = thumb,
                            stream_url = falsy_endpoint found, expire_epoch = None \<rparr>, tr2)))))"

section \<open>The main routine\<close>

text \<open>\<open>a or b\<close> where \<open>b\<close> is a string.\<close>

definition str_or :: "pystr option \<Rightarrow> pystr \<Rightarrow> pystr" where
  "str_or a b = (case a of None \<Rightarrow> b | Some t \<Rightarrow> if t \<noteq> [] then t else b)"

text \<open>
  The messages printed on the console and on the progress bar, by the place that prints
  them and the value they show; their Greek text and colour are not modelled.
\<close>

datatype report =
    Skipped_input_line pystr
  | Check_done pystr
  | Future_error exn
  | Skipped_duplicate pystr
  | Entry_written pystr


text \<open>\<open>raw_lines\<close>, from the lines of the input file.\<close>

definition read_raw_lines :: "pystr list \<Rightarrow> pystr list" where
  "read_raw_lines file_lines = map strip (filter (\<lambda>l. strip l \<noteq> []) file_lines)"

text \<open>The loop that removes duplicate input lines, as a left fold of its body over
  \<open>raw_lines\<close>.\<close>

record dedupe_state =
  unique_inputs :: "pystr list"
  seen_input_lines :: "pystr set"
  dedupe_log :: "report list"

definition dedupe_step :: "py_runtime \<Rightarrow> dedupe_state \<Rightarrow> pystr \<Rightarrow> dedupe_state" where
  "dedupe_step rt st l =
     (let key = str_lower rt (strip l) in
      if key = [] then st
      else if key \<in> seen_input_lines st
        then st\<lparr> dedupe_log := dedupe_log st @ [Skipped_input_line l] \<rparr>
      else st\<lparr> seen_input_lines := insert key (seen_input_lines st),
               unique_inputs := unique_inputs st @ [l] \<rparr>)"

definition dedupe_inputs :: "py_runtime \<Rightarrow> pystr list \<Rightarrow> dedupe_state" where
  "dedupe_inputs rt raw_lines =
     foldl (dedupe_step rt) \<lparr> unique_inputs = [], seen_input_lines = {}, dedupe_log = [] \<rparr> raw_lines"

text \<open>
  The thread pool. One future per line of \<open>unique_inputs\<close>; the future of line \<open>i\<close>
  runs a worker against its own resolver behaviour \<open>orcs i\<close>. \<open>as_completed\<close> yields the
  futures in the order in which they complete: \<open>completion\<close>, a permutation of the
  indices of \<open>unique_inputs\<close>, which the scheduling of the threads decides.
\<close>

definition future_result ::
  "py_runtime \<Rightarrow> settings \<Rightarrow> (nat \<Rightarrow> resolver) \<Rightarrow> pystr list \<Rightarrow> nat \<Rightarrow> exn + resolved" where
  "future_result rt cfg orcs inputs i = fst (check_url_entry_buffered rt (orcs i) (inputs ! i) cfg [])"

definition collect_step ::
  "(nat \<Rightarrow> exn + resolved) \<Rightarrow> resolved list \<times> report list \<Rightarrow> nat \<Rightarrow> resolved list \<times> report list" where
  "collect_step fut st i =
     (case fut i of
        Inr res \<Rightarrow> (fst st @ [res], snd st @ [Check_done (input_line res)])
      | Inl e \<Rightarrow> (fst st, snd st @ [Future_error e]))"

definition collect :: "(nat \<Rightarrow> exn + resolved) \<Rightarrow> nat list \<Rightarrow> resolved list \<times> report list" where
  "collect fut completion = foldl (collect_step fut) ([], []) completion"

text \<open>The maximal expiry: \<open>[r[5] for r in buffered if r[5]]\<close> and its \<open>max\<close>.\<close>

definition expire_epochs :: "resolved list \<Rightarrow> int list" where
  "expire_epochs buffered =
     List.map_filter (\<lambda>r. case expire_epoch r of None \<Rightarrow> None | Some e \<Rightarrow> if e \<noteq> 0 then Some e else None)
       buffered"

definition expire_max :: "resolved list \<Rightarrow> int option" where
  "expire_max buffered =
     (if expire_epochs buffered \<noteq> [] then Some (Max (set (expire_epochs buffered))) else None)"




text \<open>
  The clock of the run: the formatted creation time; the local rendering of an epoch
  (\<open>fromtimestamp\<close>, \<open>astimezone\<close> and \<open>strftime\<close>), which raises on an epoch out of range;
  and, for the countdown, the wall-clock readings in microseconds of the local datetime
  of an epoch and of \<open>now_local\<close>. Both datetimes carry the same zone object, and Python
  subtracts two such datetimes by their wall-clock fields, leaving their offsets from
  UTC aside: the countdown is the elapsed time only when the two offsets are equal.
\<close>

record clock =
  created :: pystr
  now_wall_us :: int
  wall_us :: "int \<Rightarrow> int"
  local_time_str :: "int \<Rightarrow> exn + pystr"

definition expiry_strings :: "clock \<Rightarrow> int option \<Rightarrow> pystr \<times> pystr" where
  "expiry_strings clk emax =
     (case emax of
        None \<Rightarrow> (not_available, not_available)
      | Some e \<Rightarrow>
          if e \<noteq> 0 then
            (case local_time_str clk e of
               Inl ex \<Rightarrow> (not_available, not_available)
             | Inr expire_str \<Rightarrow>
                 (expire_str, human_readable_delta_greek_full (wall_us clk e - now_wall_us clk)))
          else (not_available, not_available))"

definition special_extinf_of :: "clock \<Rightarrow> pystr \<Rightarrow> resolved list \<Rightarrow> pystr" where
  "special_extinf_of clk favicon_service buffered =
     (case expiry_strings clk (expire_max buffered) of
        (expire_str, rel_str) \<Rightarrow>
          build_special_extinf_only_expire expire_str rel_str (Some (str ''info'')) (Some favicon_service))"

text \<open>
  The loop that writes the entries, as a left fold of its body over \<open>buffered\<close>. Besides
  the two sets, the strings written to the file and the messages, the state records
  which branch each iteration takes.
\<close>

datatype branch = No_endpoint | Same_as_special | Duplicate | Written

record emit_state =
  added_keys :: "pystr set"
  added_urls :: "pystr set"
  out_f :: "pystr list"
  emit_log :: "report list"
  branches :: "branch list"

definition key_norm_of :: "py_runtime \<Rightarrow> resolved \<Rightarrow> pystr" where
  "key_norm_of rt r = str_lower rt (strip (str_or (or_str (meta_id r) (title r)) []))"

definition emit_step :: "py_runtime \<Rightarrow> pystr option \<Rightarrow> pystr \<Rightarrow> emit_state \<Rightarrow> resolved \<Rightarrow> emit_state" where
  "emit_step rt special_url favicon_service st r =
     (if \<not> truthy_str (stream_url r) then st\<lparr> branches := branches st @ [No_endpoint] \<rparr>
      else if truthy_str special_url \<and> stream_url r = special_url
        then st\<lparr> branches := branches st @ [Same_as_special] \<rparr>
      else
        (let url = str_or (stream_url r) [];
             item_logo = or_str (thumbnail r) (Some favicon_service);
             key_norm = key_norm_of rt r
         in if (truthy_str (stream_url r) \<and> url \<in> added_urls st)
               \<or> (key_norm \<noteq> [] \<and> key_norm \<in> added_keys st)
            then st\<lparr> emit_log := emit_log st @ [Skipped_duplicate (input_line r)],
                     branches := branches st @ [Duplicate] \<rparr>
            else st\<lparr> out_f := out_f st @ [build_entry_extinf (meta_id r) item_logo
                                             (str_or (title r) (input_line r)), url @ [10]],
                     added_urls := (if truthy_str (stream_url r) then insert url (added_urls st)
                                    else added_urls st),
                     added_keys := (if key_norm \<noteq> [] then insert key_norm (added_keys st)
                                    else added_keys st),
                     emit_log := emit_log st @ [Entry_written (input_line r)],
                     branches := branches st @ [Written] \<rparr>))"

definition emit_entries :: "py_runtime \<Rightarrow> pystr option \<Rightarrow> pystr \<Rightarrow> resolved list \<Rightarrow> emit_state" where
  "emit_entries rt special_url favicon_service buffered =
     foldl (emit_step rt special_url favicon_service)
       \<lparr> added_keys = {}, added_urls = {}, out_f = [], emit_log = [], branches = [] \<rparr> buffered"

text \<open>The records the loop writes an entry for, in the order of the buffer.\<close>

definition emitted :: "py_runtime \<Rightarrow> pystr option \<Rightarrow> pystr \<Rightarrow> resolved list \<Rightarrow> resolved list" where
  "emitted rt special_url favicon_service buffered =
     map fst (filter (\<lambda>p. snd p = Written)
       (zip buffered (branches (emit_entries rt special_url favicon_service buffered))))"



section \<open>The resolution chain as a list of strategies\<close>

text \<open>
  The stream resolution read as an ordered list of strategies, each giving an endpoint
  or nothing, tried until one yields. A direct-URL strategy runs the resolver with its
  arguments and takes the first line of the output that is an absolute URL.
\<close>

definition direct_url ::
  "resolver \<Rightarrow> pystr list \<Rightarrow> int \<Rightarrow> pystr option \<Rightarrow> pystr option \<Rightarrow> int \<Rightarrow> trace
     \<Rightarrow> pyval option \<times> trace" where
  "direct_url orc args tmo ck cfb n tr =
     (case run_yt_dlp_cmd_with_retries orc args ck cfb tmo n (3 / 2) tr of
        (Inl e, t) \<Rightarrow> (None, t)
      | (Inr proc, t) \<Rightarrow> (map_option PStr (first_http_line (strip (proc_output proc))), t))"

text \<open>
  The metadata strategy scans a list of candidates in priority order: the top-level
  \<open>url\<close>, the \<open>url\<close> of each entry of \<open>requested_formats\<close>, the \<open>url\<close> of each entry of
  \<open>formats\<close> whose extension or protocol names an m3u8 stream, the \<open>url\<close> of each entry
  of \<open>formats\<close>. Reading a candidate can raise, which ends the strategy with nothing.
\<close>

definition url_of :: "pyval \<Rightarrow> exn + pyval" where
  "url_of f = py_get f (str ''url'')"

definition segmented :: "pyval \<Rightarrow> exn + bool" where
  "segmented f =
     (case py_get f (str ''ext'') of
        Inl e \<Rightarrow> Inl e
      | Inr ext \<Rightarrow>
          (case py_in (str ''.m3u8'') (py_or ext (PStr [])) of
             Inl e \<Rightarrow> Inl e
           | Inr True \<Rightarrow> Inr True
           | Inr False \<Rightarrow>
               (case py_get f (str ''protocol'') of
                  Inl e \<Rightarrow> Inl e
                | Inr protocol \<Rightarrow> py_in (str ''m3u8'') (py_or protocol (PStr [])))))"

definition segmented_url_of :: "pyval \<Rightarrow> exn + pyval" where
  "segmented_url_of f =
     (case url_of f of
        Inl e \<Rightarrow> Inl e
      | Inr u \<Rightarrow>
          if \<not> truthy u then Inr PNone
          else (case segmented f of Inl e \<Rightarrow> Inl e | Inr b \<Rightarrow> Inr (if b then u else PNone)))"

definition candidates :: "(pystr \<times> pyval) list \<Rightarrow> (exn + pyval) list" where
  "candidates d =
     [Inr (dict_get d (str ''url''))]
     @ (case dict_get d (str ''requested_formats'') of PList req \<Rightarrow> map url_of req | other \<Rightarrow> [])
     @ (case py_iter (py_or (dict_get d (str ''formats'')) (PList [])) of
          Inl e \<Rightarrow> [Inl e]
        | Inr fmts \<Rightarrow> map segmented_url_of fmts @ map url_of fmts)"

fun first_truthy :: "(exn + pyval) list \<Rightarrow> pyval option" where
  "first_truthy [] = None"
| "first_truthy (Inl e # cs) = None"
| "first_truthy (Inr v # cs) = (if truthy v then Some v else first_truthy cs)"

definition json_metadata ::
  "py_runtime \<Rightarrow> resolver \<Rightarrow> pystr \<Rightarrow> int \<Rightarrow> pystr option \<Rightarrow> pystr option \<Rightarrow> int \<Rightarrow> trace
     \<Rightarrow> pyval option \<times> trace" where
  "json_metadata rt orc url tmo ck cfb n tr =
     (case run_yt_dlp_cmd_with_retries orc [str ''-j'', url] ck cfb tmo n (3 / 2) tr of
        (Inl e, t) \<Rightarrow> (None, t)
      | (Inr proc, t) \<Rightarrow>
          (if strip (proc_output proc) = [] then None
           else (case json_loads rt (strip (proc_output proc)) of
                   Inr (PDict d) \<Rightarrow> first_truthy (candidates d)
                 | other \<Rightarrow> None), t))"

fun first_yield :: "(trace \<Rightarrow> pyval option \<times> trace) list \<Rightarrow> trace \<Rightarrow> pyval option \<times> trace" where
  "first_yield [] tr = (None, tr)"
| "first_yield (s # ss) tr =
     (case s tr of (Some u, t) \<Rightarrow> (Some u, t) | (None, t) \<Rightarrow> first_yield ss t)"

definition fetchStreamEndpoint ::
  "py_runtime \<Rightarrow> resolver \<Rightarrow> pystr \<Rightarrow> pystr \<Rightarrow> int \<Rightarrow> pystr option \<Rightarrow> pystr option \<Rightarrow> int \<Rightarrow> trace
     \<Rightarrow> pyval option \<times> trace" where
  "fetchStreamEndpoint rt orc url descriptor tmo ck cfb n =
     first_yield
       ([direct_url orc [str ''-g'', url] tmo ck cfb n]
        @ (if descriptor \<noteq> [] then [direct_url orc [str ''-f'', descriptor, str ''-g'', url] tmo ck cfb n]
           else [])
        @ [json_metadata rt orc url tmo ck cfb n])"

text \<open>
  The trace of a call that fails \<open>k\<close> times and then makes one more attempt: the
  command, and between two attempts the delay \<open>backoff * i\<close> after the \<open>i\<close>-th failure.
\<close>

definition attempts :: "pystr list \<Rightarrow> int \<Rightarrow> rat \<Rightarrow> nat \<Rightarrow> trace" where
  "attempts cmd tmo backoff k =
     concat (map (\<lambda>i. [Run cmd tmo, Sleep (backoff * of_nat (Suc i))]) [0..<k]) @ [Run cmd tmo]"

text \<open>The command line of a resolver call.\<close>

definition command_line :: "pystr list \<Rightarrow> pystr option \<Rightarrow> pystr option \<Rightarrow> pystr list" where
  "command_line args ck cfb =
     [str ''yt-dlp'']
     @ (if truthy_str ck then [str ''--cookies'', str_or ck []]
        else if truthy_str cfb then [str ''--cookies-from-browser'', str_or cfb []] else [])
     @ args"

section \<open>Example inputs\<close>

text \<open>
  A resolver that answers by the options of the command (the arguments before the
  URL, which comes last): the metadata line for \<open>--print\<close>, the output for \<open>-g\<close>, and
  the JSON text for \<open>-j\<close>. A resolver that always times out. A
  resolver that times out \<open>k\<close> times and then answers.
\<close>

definition scripted :: "pystr \<Rightarrow> pystr \<Rightarrow> pystr \<Rightarrow> resolver" where
  "scripted meta direct js n cmd t =
     (if str ''--print'' \<in> set (butlast cmd) then Inr \<lparr> stdout = meta, stderr = [] \<rparr>
      else if str ''-g'' \<in> set (butlast cmd) then Inr \<lparr> stdout = direct, stderr = [] \<rparr>
      else Inr \<lparr> stdout = js, stderr = [] \<rparr>)"

definition failing :: resolver where
  "failing n cmd t = Inl TimeoutExpired"

definition flaky :: "nat \<Rightarrow> pystr \<Rightarrow> resolver" where
  "flaky k out n cmd t = (if n < k then Inl TimeoutExpired else Inr \<lparr> stdout = out, stderr = [] \<rparr>)"

definition no_json :: "pystr \<Rightarrow> exn + pyval" where
  "no_json s = Inl (OtherException 0)"

text \<open>
  Two outputs of \<open>yt-dlp -j\<close> and what \<open>json.loads\<close> makes of them: a \<open>url\<close> that is a
  number, and two formats of which the second has an m3u8 protocol. \<open>json_table\<close> is a
  \<open>json.loads\<close> known on the listed texts only.
\<close>

definition json_table :: "(pystr \<times> pyval) list \<Rightarrow> pystr \<Rightarrow> exn + pyval" where
  "json_table tab s = (case map_of tab s of Some v \<Rightarrow> Inr v | None \<Rightarrow> Inl (OtherException 0))"

definition numeric_url_text :: pystr where
  "numeric_url_text = str ''{'' @ [34] @ str ''url'' @ [34] @ str '': 5}''"

definition numeric_url_json :: "pystr \<Rightarrow> exn + pyval" where
  "numeric_url_json = json_table [(numeric_url_text, PDict [(str ''url'', PInt 5)])]"



text \<open>The same resolver behaviour for every worker.\<close>

definition every_worker :: "resolver \<Rightarrow> nat \<Rightarrow> resolver" where
  "every_worker orc i = orc"

definition defaults :: settings where
  "defaults =
     \<lparr> fmt = str ''worstvideo+bestaudio/best'', timeout = 60, cookies = None,
       cookies_from_browser = None, fallback_watch = True, no_metadata = False,
       full_metadata = False, retries = 2 \<rparr>"

definition plain :: "pystr \<Rightarrow> pystr option \<Rightarrow> pystr option \<Rightarrow> pystr option \<Rightarrow> int option \<Rightarrow> resolved" where
  "plain l i t u e =
     \<lparr> input_line = l, meta_id = i, title = t, thumbnail = None, stream_url = u, expire_epoch = e \<rparr>"

definition fixed_clock :: clock where
  "fixed_clock = \<lparr> created = str ''01-01-2026 00:00:00'', now_wall_us = 0,
                    wall_us = (\<lambda>e. e * 1000000), local_time_str = (\<lambda>e. Inr (str_of_int e)) \<rparr>"


section \<open>Notions used in the statements\<close>

text \<open>The key of an input line, and the lines that are the first with their key.\<close>

definition dedupe_key :: "py_runtime \<Rightarrow> pystr \<Rightarrow> pystr" where
  "dedupe_key rt l = str_lower rt (strip l)"

definition first_of_key :: "py_runtime \<Rightarrow> pystr list \<Rightarrow> nat \<Rightarrow> bool" where
  "first_of_key rt raw i \<longleftrightarrow> dedupe_key rt (raw ! i) \<notin> dedupe_key rt ` set (take i raw)"

definition keyed :: "py_runtime \<Rightarrow> pystr list \<Rightarrow> nat \<Rightarrow> bool" where
  "keyed rt raw i \<longleftrightarrow> dedupe_key rt (raw ! i) \<noteq> []"

text \<open>A stream resolution that fails: it raises, or returns \<open>None\<close> (or any falsy value).\<close>

definition resolution_fails :: "exn + pyval \<Rightarrow> bool" where
  "resolution_fails res = (case res of Inl e \<Rightarrow> True | Inr v \<Rightarrow> \<not> truthy v)"



section \<open>Normalization of input lines\<close>

lemma last_dropWhile_keep: "dropWhile P xs \<noteq> [] \<Longrightarrow> last (dropWhile P xs) = last xs"
  by (induction xs) (auto split: if_splits)

lemma strip_fixed:
  assumes "s \<noteq> []" "\<not> isspace (hd s)" "\<not> isspace (last s)"
  shows "strip s = s"
proof -
  from assms have a: "dropWhile isspace s = s" by (cases s) auto
  from assms have "rev s \<noteq> []" "\<not> isspace (hd (rev s))" by (auto simp: hd_rev)
  then have "dropWhile isspace (rev s) = rev s" by (cases "rev s") auto
  with a show ?thesis by (simp add: strip_def)
qed

lemma strip_ends:
  assumes "strip s \<noteq> []"
  shows "\<not> isspace (hd (strip s))" and "\<not> isspace (last (strip s))"
proof -
  let ?t = "dropWhile isspace s"
  let ?u = "dropWhile isspace (rev ?t)"
  from assms have u: "?u \<noteq> []" by (simp add: strip_def)
  have t: "?t \<noteq> []"
    using u by (metis dropWhile.simps(1) rev.simps(1))
  have "hd (strip s) = last ?u" using u by (simp add: strip_def hd_rev)
  also have "\<dots> = last (rev ?t)" using u by (rule last_dropWhile_keep)
  also have "\<dots> = hd ?t" using t by (simp add: last_rev)
  finally show "\<not> isspace (hd (strip s))" using t hd_dropWhile by metis
  have "last (strip s) = hd ?u" using u by (simp add: strip_def last_rev)
  then show "\<not> isspace (last (strip s))" using u hd_dropWhile by metis
qed

lemma strip_Nil: "strip [] = []"
  by (simp add: strip_def)

lemma strip_strip: "strip (strip s) = strip s"
proof (cases "strip s = []")
  case True then show ?thesis by (simp only: strip_Nil)
next
  case False then show ?thesis by (intro strip_fixed strip_ends)
qed

lemma strip_watch_prefix:
  assumes "strip s \<noteq> []"
  shows "strip (str ''https://www.youtube.com/watch?v='' @ strip s) = str ''https://www.youtube.com/watch?v='' @ strip s"
proof (rule strip_fixed)
  show "str ''https://www.youtube.com/watch?v='' @ strip s \<noteq> []" using assms by simp
  show "\<not> isspace (hd (str ''https://www.youtube.com/watch?v='' @ strip s))"
    by (simp add: str_def isspace_def)
  show "\<not> isspace (last (str ''https://www.youtube.com/watch?v='' @ strip s))"
    using assms strip_ends(2) by simp
qed

lemma startswith_watch_prefix:
  "startswith (str ''https://www.youtube.com/watch?v='' @ t) (str ''https://'')"
  by (simp add: startswith_def str_def)

lemma normalize_scheme:
  assumes "startswith (strip x) (str ''http://'') \<or> startswith (strip x) (str ''https://'')"
  shows "normalize_input_line x = strip x"
  using assms by (auto simp add: normalize_input_line_def Let_def startswith_def str_def)

lemma normalize_bare:
  assumes "strip x \<noteq> []"
    and "\<not> (startswith (strip x) (str ''http://'') \<or> startswith (strip x) (str ''https://''))"
  shows "normalize_input_line x = str ''https://www.youtube.com/watch?v='' @ strip x"
  using assms by (simp add: normalize_input_line_def Let_def)

lemma normalize_blank: "strip x = [] \<Longrightarrow> normalize_input_line x = []"
  by (simp add: normalize_input_line_def Let_def)

lemma normalize_strip: "normalize_input_line (strip x) = normalize_input_line x"
  by (simp add: normalize_input_line_def Let_def strip_strip)

lemma normalize_idem: "normalize_input_line (normalize_input_line x) = normalize_input_line x"
proof (cases "strip x = []")
  case True
  then show ?thesis by (simp add: normalize_blank strip_Nil)
next
  case ne: False
  show ?thesis
  proof (cases "startswith (strip x) (str ''http://'') \<or> startswith (strip x) (str ''https://'')")
    case True
    then show ?thesis by (simp only: normalize_scheme normalize_strip)
  next
    case False
    have "normalize_input_line (str ''https://www.youtube.com/watch?v='' @ strip x)
        = str ''https://www.youtube.com/watch?v='' @ strip x"
      using normalize_scheme[of "str ''https://www.youtube.com/watch?v='' @ strip x"]
        strip_watch_prefix[OF ne] startswith_watch_prefix by simp
    with normalize_bare[OF ne False] show ?thesis by simp
  qed
qed

lemmas text_eval = str_def strip_def isspace_def startswith_def normalize_input_line_def Let_def

lemma read_raw_lines_trimmed: "l \<in> set (read_raw_lines file_lines) \<Longrightarrow> strip l = l"
  by (auto simp add: read_raw_lines_def strip_strip)

lemma dedupe_step_subset:
  "set (unique_inputs (dedupe_step rt st l)) \<subseteq> insert l (set (unique_inputs st))"
  by (auto simp add: dedupe_step_def Let_def)

lemma unique_inputs_subset: "set (unique_inputs (dedupe_inputs rt raw)) \<subseteq> set raw"
proof (induction raw rule: rev_induct)
  case Nil
  then show ?case by (simp add: dedupe_inputs_def)
next
  case (snoc l raw)
  have "dedupe_inputs rt (raw @ [l]) = dedupe_step rt (dedupe_inputs rt raw) l"
    by (simp add: dedupe_inputs_def)
  with snoc dedupe_step_subset[of rt "dedupe_inputs rt raw" l] show ?case by auto
qed

text \<open>
  C7. Normalization is total (a function of every string) and idempotent. A bare
  identifier, a string that is not blank and whose trimmed form begins with neither
  \<open>http://\<close> nor \<open>https://\<close>, normalizes to the fixed watch URL followed by the trimmed
  identifier; \<open>abc123\<close> normalizes to \<open>https://www.youtube.com/watch?v=abc123\<close>. A string
  whose trimmed form begins with \<open>http://\<close> or \<open>https://\<close> normalizes to its trimmed form,
  so a trimmed string that begins with a recognized scheme is returned unchanged. The
  lines that the program normalizes, those of \<open>unique_inputs\<close>, are trimmed.
\<close>

theorem normalize_idempotent_canonical:
  "normalize_input_line (normalize_input_line x) = normalize_input_line x
   \<and> (strip x \<noteq> [] \<and> \<not> startswith (strip x) (str ''http://'')
        \<and> \<not> startswith (strip x) (str ''https://'')
        \<longrightarrow> normalize_input_line x = str ''https://www.youtube.com/watch?v='' @ strip x)
   \<and> strip (str ''abc123'') = str ''abc123''
   \<and> normalize_input_line (str ''abc123'') = str ''https://www.youtube.com/watch?v=abc123''
   \<and> (startswith (strip x) (str ''http://'') \<or> startswith (strip x) (str ''https://'')
        \<longrightarrow> normalize_input_line x = strip x)
   \<and> (strip x = x \<and> (startswith x (str ''http://'') \<or> startswith x (str ''https://''))
        \<longrightarrow> normalize_input_line x = x)
   \<and> (\<forall>l \<in> set (unique_inputs (dedupe_inputs rt (read_raw_lines file_lines))). strip l = l)"
proof (intro conjI impI ballI)
  show "normalize_input_line (normalize_input_line x) = normalize_input_line x"
    by (rule normalize_idem)
  show "normalize_input_line x = str ''https://www.youtube.com/watch?v='' @ strip x"
    if "strip x \<noteq> [] \<and> \<not> startswith (strip x) (str ''http://'')
        \<and> \<not> startswith (strip x) (str ''https://'')"
    using that by (intro normalize_bare) auto
  show "strip (str ''abc123'') = str ''abc123''"
    by (simp add: text_eval)
  show "normalize_input_line (str ''abc123'') = str ''https://www.youtube.com/watch?v=abc123''"
    by (simp add: text_eval)
  show "normalize_input_line x = strip x"
    if "startswith (strip x) (str ''http://'') \<or> startswith (strip x) (str ''https://'')"
    using that by (rule normalize_scheme)
  show "normalize_input_line x = x"
    if "strip x = x \<and> (startswith x (str ''http://'') \<or> startswith x (str ''https://''))"
    using that normalize_scheme[of x] by simp
  show "strip l = l" if "l \<in> set (unique_inputs (dedupe_inputs rt (read_raw_lines file_lines)))" for l
    using that unique_inputs_subset[of rt "read_raw_lines file_lines"] read_raw_lines_trimmed by blast
qed

theorem normalize_idempotent_canonical_witness:
  "startswith (strip (str ''https://youtu.be/abc123'')) (str ''https://'')
   \<and> strip (str ''https://youtu.be/abc123'') = str ''https://youtu.be/abc123''
   \<and> normalize_input_line (str ''https://youtu.be/abc123'') = str ''https://youtu.be/abc123''
   \<and> strip (str '' dQw4w9WgXcQ '') = str ''dQw4w9WgXcQ''
   \<and> normalize_input_line (str '' dQw4w9WgXcQ '') = str ''https://www.youtube.com/watch?v=dQw4w9WgXcQ''
   \<and> unique_inputs (dedupe_inputs (ascii_runtime no_json) (read_raw_lines [str '' http://a '' @ [10]]))
       = [str ''http://a'']
   \<and> strip (str ''http://a'') = str ''http://a''"
  using normalize_idempotent_canonical [of "str ''https://youtu.be/abc123''"]
    normalize_idempotent_canonical [of "str '' dQw4w9WgXcQ ''"]
    normalize_idempotent_canonical [of x "ascii_runtime no_json" "[str '' http://a '' @ [10]]"]
  by (simp add: str_def strip_def isspace_def startswith_def read_raw_lines_def dedupe_inputs_def
      dedupe_step_def Let_def ascii_runtime_def ascii_lower_def)

text \<open>
  Before it is trimmed, a line that begins with a scheme and ends in a space is not
  returned as it is: the space is removed.
\<close>

lemma normalize_trims_url:
  "startswith (str ''http://a '') (str ''http://'')
   \<and> normalize_input_line (str ''http://a '') = str ''http://a''"
  by (simp add: text_eval)

section \<open>Relative-time rendering\<close>

lemma digits_small: "n < 10 \<Longrightarrow> digits n = [48 + n]"
  by (simp add: digits.simps)

lemma hms_unique:
  fixes total h m s :: int
  assumes "total = 3600 * h + 60 * m + s" "0 \<le> m" "m < 60" "0 \<le> s" "s < 60"
  shows "total div 3600 = h" and "(total mod 3600) div 60 = m" and "(total mod 3600) mod 60 = s"
proof -
  have r: "0 \<le> 60 * m + s" "60 * m + s < 3600" using assms by auto
  have t: "total = 3600 * h + (60 * m + s)" using assms by simp
  show "total div 3600 = h" using t r by (simp add: int_div_pos_eq)
  have e: "total mod 3600 = 60 * m + s" using t r by (simp add: int_mod_pos_eq)
  have "(60 * m + s) div 60 = m"
    using assms(4,5) by (intro int_div_pos_eq[where r = s]) auto
  then show "(total mod 3600) div 60 = m" by (simp only: e)
  have "(60 * m + s) mod 60 = s"
    using assms(4,5) by (intro int_mod_pos_eq[where q = m]) auto
  then show "(total mod 3600) mod 60 = s" by (simp only: e)
qed

lemma bit_length_bounds: "0 < n \<Longrightarrow> 2 ^ (bit_length n - 1) \<le> n \<and> n < 2 ^ bit_length n"
proof (induction n rule: bit_length.induct)
  case (1 n)
  show ?case
  proof (cases "n div 2 = 0")
    case True
    with 1 have "n = 1" by (simp add: div_eq_0_iff) 
    then show ?thesis by (simp add: bit_length.simps)
  next
    case False
    then have pos: "0 < n div 2" by simp
    from 1 pos have ih: "2 ^ (bit_length (n div 2) - 1) \<le> n div 2 \<and> n div 2 < 2 ^ bit_length (n div 2)"
      by simp
    have bl: "bit_length n = Suc (bit_length (n div 2))" using 1(2) by (subst bit_length.simps) simp
    have blpos: "0 < bit_length (n div 2)" using pos by (subst bit_length.simps) simp
    then have e: "2 ^ (bit_length (n div 2)) = 2 * (2::nat) ^ (bit_length (n div 2) - 1)"
      by (cases "bit_length (n div 2)") auto
    from ih have "2 * 2 ^ (bit_length (n div 2) - 1) \<le> n" by linarith
    moreover from ih have "n < 2 * 2 ^ bit_length (n div 2)" by linarith
    ultimately show ?thesis using bl e by simp
  qed
qed


lemma bit_length_int:
  assumes "0 < (a::int)"
  shows "2 ^ (bit_length (nat a) - 1) \<le> a" and "a < 2 ^ bit_length (nat a)" and "0 < bit_length (nat a)"
proof -
  from assms have p: "0 < nat a" by simp
  note b = bit_length_bounds[OF p]
  from b have "int (2 ^ (bit_length (nat a) - 1)) \<le> int (nat a)" by (simp only: of_nat_le_iff)
  then show "2 ^ (bit_length (nat a) - 1) \<le> a" using assms by simp
  from b have "int (nat a) < int (2 ^ bit_length (nat a))" by (simp only: of_nat_less_iff)
  then show "a < 2 ^ bit_length (nat a)" using assms by simp
  show "0 < bit_length (nat a)" using p by (subst bit_length.simps) simp
qed

lemma binary_exponent_le:
  assumes a: "0 < a" and b: "0 < b" and e: "0 \<le> binary_exponent a b"
  shows "b * 2 ^ nat (binary_exponent a b) \<le> a"
proof -
  define la where "la = bit_length (nat a)"
  define lb where "lb = bit_length (nat b)"
  define d where "d = int la - int lb"
  show ?thesis
  proof (cases "if 0 \<le> d then b * 2 ^ nat d \<le> a else b \<le> a * 2 ^ nat (- d)")
    case True
    then have eq: "binary_exponent a b = d"
      unfolding binary_exponent_def Let_def la_def[symmetric] lb_def[symmetric] d_def[symmetric]
      by (rule if_P)
    with e have "0 \<le> d" by simp
    with True eq show ?thesis by simp
  next
    case False
    then have eq: "binary_exponent a b = d - 1"
      unfolding binary_exponent_def Let_def la_def[symmetric] lb_def[symmetric] d_def[symmetric]
      by (rule if_not_P)
    with e have d1: "1 \<le> d" by simp
    then have lalb: "lb < la" by (simp add: d_def)
    have n: "nat (d - 1) = la - 1 - lb" using d1 by (simp add: d_def)
    have "b * 2 ^ (la - 1 - lb) \<le> 2 ^ lb * 2 ^ (la - 1 - lb)"
      using bit_length_int(2)[OF b] by (simp add: lb_def)
    also have "\<dots> = 2 ^ (la - 1)" using lalb by (simp flip: power_add)
    also have "\<dots> \<le> a" using bit_length_int(1)[OF a] by (simp add: la_def)
    finally show ?thesis by (simp add: eq n)
  qed
qed

lemma round_half_even_bounds:
  assumes "0 < d"
  shows "n div d \<le> round_half_even n d" and "round_half_even n d \<le> n div d + 1"
    and "round_half_even n d = n div d + 1 \<Longrightarrow> d \<le> 2 * (n mod d)"
  by (auto simp add: round_half_even_def Let_def split: if_splits)

lemma scaled_lower:
  fixes a b k P :: int
  assumes "0 < b" "0 \<le> P" "k * b \<le> a"
  shows "k * P \<le> (a * P) div b"
proof -
  have "(k * b) * P \<le> a * P" using assms(3,2) by (rule mult_right_mono)
  then have "(k * P) * b \<le> a * P" by (simp add: mult.assoc mult.left_commute mult.commute)
  then have "((k * P) * b) div b \<le> (a * P) div b" using assms(1) by (intro zdiv_mono1) auto
  then show ?thesis using assms(1) by simp
qed

lemma scaled_upper:
  fixes a b k P :: int
  assumes "0 < b" "0 < P" "a < (k + 1) * b"
  shows "(a * P) div b < (k + 1) * P"
proof -
  have "a * P < ((k + 1) * b) * P" using assms(3,2) by (rule mult_strict_right_mono)
  then have lt: "a * P < ((k + 1) * P) * b" by (simp add: mult.assoc mult.left_commute mult.commute)
  show ?thesis
  proof (rule ccontr)
    assume "\<not> (a * P) div b < (k + 1) * P"
    then have "(k + 1) * P \<le> (a * P) div b" by simp
    then have "((k + 1) * P) * b \<le> ((a * P) div b) * b" using assms(1) by (intro mult_right_mono) auto
    then have "((k + 1) * P) * b \<le> b * ((a * P) div b)" by (simp add: mult.commute)
    moreover have "a * P = b * ((a * P) div b) + (a * P) mod b" by simp
    moreover have "0 \<le> (a * P) mod b" using assms(1) by simp
    ultimately show False using lt by linarith
  qed
qed

lemma round_scaled_exact:
  fixes a b k P :: int
  assumes b: "0 < b" and P: "0 < P" and lo: "k * b \<le> a" and hi: "a < (k + 1) * b" and half: "b < 2 * P"
  shows "k * P \<le> round_half_even (a * P) b" and "round_half_even (a * P) b < (k + 1) * P"
proof -
  let ?n = "a * P"
  have P0: "0 \<le> P" using P by simp
  show "k * P \<le> round_half_even ?n b"
    using scaled_lower[OF b P0 lo] round_half_even_bounds(1)[OF b, of ?n] by linarith
  show "round_half_even ?n b < (k + 1) * P"
  proof (rule ccontr)
    assume "\<not> round_half_even ?n b < (k + 1) * P"
    then have ge: "(k + 1) * P \<le> round_half_even ?n b" by simp
    with scaled_upper[OF b P hi] round_half_even_bounds(2)[OF b, of ?n]
    have up: "round_half_even ?n b = ?n div b + 1" and f: "?n div b = (k + 1) * P - 1" by linarith+
    from round_half_even_bounds(3)[OF b up] have r: "b \<le> 2 * (?n mod b)" .
    have "?n = b * (?n div b) + ?n mod b" by simp
    then have n: "2 * ?n = 2 * (b * ((k + 1) * P - 1)) + 2 * (?n mod b)" using f by simp
    from hi have "a + 1 \<le> (k + 1) * b" by simp
    then have "(a + 1) * P \<le> ((k + 1) * b) * P" using P0 by (rule mult_right_mono)
    then have "2 * ?n + 2 * P \<le> 2 * (b * ((k + 1) * P))" by (simp add: algebra_simps)
    with n r have "2 * P \<le> b" by (simp add: algebra_simps)
    with half show False by simp
  qed
qed

lemma round_scaled_near:
  fixes a b k P :: int
  assumes b: "0 < b" and P: "0 < P" and lo: "k * b \<le> a" and hi: "a < (k + 1) * b"
  shows "k * P \<le> round_half_even (a * P) b" and "round_half_even (a * P) b \<le> (k + 1) * P"
proof -
  have P0: "0 \<le> P" using P by simp
  show "k * P \<le> round_half_even (a * P) b"
    using scaled_lower[OF b P0 lo] round_half_even_bounds(1)[OF b, of "a * P"] by linarith
  show "round_half_even (a * P) b \<le> (k + 1) * P"
    using scaled_upper[OF b P hi] round_half_even_bounds(2)[OF b, of "a * P"] by linarith
qed

lemma exponent_bound:
  assumes a: "0 < a" and b: "0 < b" and lt: "a < b * 2 ^ n"
  shows "binary_exponent a b < int n"
proof (rule ccontr)
  assume "\<not> binary_exponent a b < int n"
  then have ge: "int n \<le> binary_exponent a b" by simp
  then have e0: "0 \<le> binary_exponent a b" by simp
  from ge have "n \<le> nat (binary_exponent a b)" by simp
  then have "(2::int) ^ n \<le> 2 ^ nat (binary_exponent a b)" by (intro power_increasing) auto
  then have "b * 2 ^ n \<le> b * 2 ^ nat (binary_exponent a b)" using b by (intro mult_left_mono) auto
  with binary_exponent_le[OF a b e0] lt show False by simp
qed

lemma whole_seconds_exact:
  assumes "0 \<le> delta" "delta < 2 ^ 53"
  shows "whole_seconds delta = delta div 1000000"
proof (cases "delta = 0")
  case True
  then show ?thesis by (simp add: whole_seconds_def total_seconds_def true_divide_def int_of_double_def)
next
  case False
  with assms have a: "0 < delta" by simp
  define e where "e = binary_exponent delta 1000000"
  define p where "p = nat (52 - e)"
  define k where "k = delta div 1000000"
  have "delta < 1000000 * 2 ^ 34" using assms(2) by simp
  from exponent_bound[OF a _ this] have e: "e < 34" by (simp add: e_def)
  then have p: "19 \<le> p" "52 - e = int p" by (simp_all add: p_def)
  have "(2::int) ^ 19 \<le> 2 ^ p" using p(1) by (intro power_increasing) auto
  then have P: "0 < (2::int) ^ p" "(1000000::int) < 2 * 2 ^ p" by simp_all
  have dm: "delta = 1000000 * k + delta mod 1000000" by (simp add: k_def)
  have "0 \<le> delta mod 1000000" "delta mod 1000000 < 1000000" by simp_all
  with dm have lo: "k * 1000000 \<le> delta" and hi: "delta < (k + 1) * 1000000"
    by (simp_all add: algebra_simps)
  note r = round_scaled_exact[OF _ P(1) lo hi P(2), simplified]
  have k0: "0 \<le> k" using a by (simp add: k_def pos_imp_zdiv_nonneg_iff)
  have m0: "0 \<le> round_half_even (delta * 2 ^ p) 1000000"
    using r(1) k0 P(1) by (meson dual_order.trans mult_nonneg_nonneg less_imp_le)
  have "round_half_even (delta * 2 ^ p) 1000000 div 2 ^ p = k"
    using r P(1) by (intro int_div_pos_eq[where r = "round_half_even (delta * 2 ^ p) 1000000 - k * 2 ^ p"])
      (simp_all add: algebra_simps)
  then have i: "int_of_double (round_half_even (delta * 2 ^ p) 1000000, e - 52) = k"
    using e m0 by (simp add: int_of_double_def p_def)
  have "true_divide delta 1000000 = (round_half_even (delta * 2 ^ p) 1000000, e - 52)"
    using a e unfolding true_divide_def Let_def e_def[symmetric] by (simp add: p_def)
  with i show ?thesis by (simp add: whole_seconds_def total_seconds_def k_def)
qed

lemma round_half_even_nonneg: "0 \<le> n \<Longrightarrow> 0 < d \<Longrightarrow> 0 \<le> round_half_even n d"
  using round_half_even_bounds(1)[of d n] pos_imp_zdiv_nonneg_iff[of d n] by simp

lemma whole_seconds_negative:
  assumes "delta < 0"
  shows "whole_seconds delta \<le> 0"
proof -
  define sh where "sh = binary_exponent (- delta) 1000000 - 52"
  define m where "m = (if sh \<le> 0 then round_half_even (- delta * 2 ^ nat (- sh)) 1000000
                       else round_half_even (- delta) (1000000 * 2 ^ nat sh))"
  have "0 \<le> (- delta) * 2 ^ nat (- sh)" using assms by (intro mult_nonneg_nonneg) auto
  then have m: "0 \<le> m"
    using assms by (simp add: m_def round_half_even_nonneg)
  have "total_seconds delta = (- m, sh)"
    using assms by (simp add: total_seconds_def true_divide_def Let_def sh_def m_def)
  then have "whole_seconds delta = int_of_double (- m, sh)" by (simp add: whole_seconds_def)
  also have "\<dots> \<le> 0"
    using m by (simp add: int_of_double_def mult_nonneg_nonneg pos_imp_zdiv_nonneg_iff)
  finally show ?thesis .
qed

lemma whole_seconds_small: "delta < 1000000 \<Longrightarrow> whole_seconds delta \<le> 0"
proof (cases "delta < 0")
  case True
  then show ?thesis by (rule whole_seconds_negative)
next
  case False
  assume "delta < 1000000"
  with False have "whole_seconds delta = delta div 1000000"
    by (intro whole_seconds_exact) auto
  with False \<open>delta < 1000000\<close> show ?thesis by simp
qed

lemma whole_seconds_large:
  "1000000 \<le> delta \<Longrightarrow> delta < 2 ^ 53 \<Longrightarrow>
     whole_seconds delta = delta div 1000000 \<and> 0 < delta div 1000000"
  using whole_seconds_exact[of delta] by (auto simp add: pos_imp_zdiv_pos_iff)

lemma whole_seconds_near:
  assumes a: "0 < delta" and lt: "delta div 1000000 < 2 ^ 53"
  shows "delta div 1000000 \<le> whole_seconds delta" and "whole_seconds delta \<le> delta div 1000000 + 1"
proof -
  define e where "e = binary_exponent delta 1000000"
  define p where "p = nat (52 - e)"
  define k where "k = delta div 1000000"
  have dm: "delta = 1000000 * k + delta mod 1000000" by (simp add: k_def)
  have "0 \<le> delta mod 1000000" "delta mod 1000000 < 1000000" by simp_all
  with dm have lo: "k * 1000000 \<le> delta" and hi: "delta < (k + 1) * 1000000"
    by (simp_all add: algebra_simps)
  from lt have "k + 1 \<le> 2 ^ 53" by (simp add: k_def)
  then have "(k + 1) * 1000000 \<le> 2 ^ 53 * (1000000::int)" by (intro mult_right_mono) auto
  with hi have "delta < 1000000 * 2 ^ 53" by simp
  from exponent_bound[OF a _ this] have e: "e < 53" by (simp add: e_def)
  have P: "0 < (2::int) ^ p" by simp
  note r = round_scaled_near[OF _ P lo hi, simplified]
  have k0: "0 \<le> k" using a by (simp add: k_def pos_imp_zdiv_nonneg_iff)
  have m0: "0 \<le> round_half_even (delta * 2 ^ p) 1000000"
    using a by (intro round_half_even_nonneg) auto
  have "(k * 2 ^ p) div 2 ^ p \<le> round_half_even (delta * 2 ^ p) 1000000 div 2 ^ p"
    using r(1) P by (intro zdiv_mono1) auto
  then have l: "k \<le> round_half_even (delta * 2 ^ p) 1000000 div 2 ^ p" by simp
  have "round_half_even (delta * 2 ^ p) 1000000 div 2 ^ p \<le> ((k + 1) * 2 ^ p) div 2 ^ p"
    using r(2) P by (intro zdiv_mono1) auto
  then have u: "round_half_even (delta * 2 ^ p) 1000000 div 2 ^ p \<le> k + 1" by simp
  have i: "int_of_double (round_half_even (delta * 2 ^ p) 1000000, e - 52)
      = round_half_even (delta * 2 ^ p) 1000000 div 2 ^ p"
    using e m0 by (simp add: int_of_double_def p_def)
  have "true_divide delta 1000000 = (round_half_even (delta * 2 ^ p) 1000000, e - 52)"
    using a e unfolding true_divide_def Let_def e_def[symmetric] by (simp add: p_def)
  with i have w: "whole_seconds delta = round_half_even (delta * 2 ^ p) 1000000 div 2 ^ p"
    by (simp add: whole_seconds_def total_seconds_def)
  show "delta div 1000000 \<le> whole_seconds delta" using l by (simp add: w k_def)
  show "whole_seconds delta \<le> delta div 1000000 + 1" using u by (simp add: w k_def)
qed

lemmas double_eval =
  whole_seconds_def total_seconds_def true_divide_def binary_exponent_def bit_length.simps
  round_half_even_def int_of_double_def Let_def

lemma render_components:
  fixes total h m s :: int
  assumes "0 < whole_seconds delta" "whole_seconds delta = 3600 * h + 60 * m + s"
    "0 \<le> m" "m < 60" "0 \<le> s" "s < 60"
  shows "human_readable_delta_greek_full delta =
     word_in @ join word_and (map (\<lambda>(n, w). str_of_int n @ str '' '' @ w)
       (filter (\<lambda>(n, w). n \<noteq> 0) [(h, word_hour h), (m, word_minute m), (s, word_second s)]))"
proof -
  note u = hms_unique[OF assms(2-6)]
  show ?thesis
    using assms(1) unfolding human_readable_delta_greek_full_def Let_def u
    by simp
qed

text \<open>
  C9. The rendering works on \<open>int(delta.total_seconds())\<close>, the whole seconds of the delta.
  A delta below one second, so a delta of zero and every negative delta, renders the
  sentinel for "expires now". A delta of at least one second and below \<open>2 ^ 53\<close>
  microseconds (some 285 years), whose whole seconds the float division gives exactly,
  is decomposed into hours, minutes below 60 and seconds below 60, and renders the word
  for "in" followed by the components that are not zero, hours first, each as its
  number, a space and the singular or plural word, joined by the word for "and". For
  every positive \<open>timedelta\<close> the same holds of the whole seconds the code computes,
  which are those of the delta or, when the float division rounds up, one more. A delta
  of 3661 seconds renders 1 hour, 1 minute and 1 second, and one of 7322 seconds renders
  2 hours, 2 minutes and 2 seconds.
\<close>

theorem relative_time_rendering:
  "(delta < 1000000 \<longrightarrow>
      human_readable_delta_greek_full delta = [955, 942, 947, 949, 953, 32, 964, 974, 961, 945])
   \<and> (1000000 \<le> delta \<and> delta < 2 ^ 53 \<and> delta div 1000000 = 3600 * h + 60 * m + s
        \<and> 0 \<le> m \<and> m < 60 \<and> 0 \<le> s \<and> s < 60 \<longrightarrow>
      human_readable_delta_greek_full delta =
        word_in @ join word_and (map (\<lambda>(n, w). str_of_int n @ str '' '' @ w)
          (filter (\<lambda>(n, w). n \<noteq> 0) [(h, word_hour h), (m, word_minute m), (s, word_second s)])))
   \<and> (0 < delta \<and> delta div 1000000 < 2 ^ 53 \<longrightarrow>
        whole_seconds delta \<in> {delta div 1000000, delta div 1000000 + 1})
   \<and> (0 < whole_seconds delta \<and> whole_seconds delta = 3600 * h + 60 * m + s
        \<and> 0 \<le> m \<and> m < 60 \<and> 0 \<le> s \<and> s < 60 \<longrightarrow>
      human_readable_delta_greek_full delta =
        word_in @ join word_and (map (\<lambda>(n, w). str_of_int n @ str '' '' @ w)
          (filter (\<lambda>(n, w). n \<noteq> 0) [(h, word_hour h), (m, word_minute m), (s, word_second s)])))
   \<and> human_readable_delta_greek_full (3661 * 1000000) =
        [963, 949, 32, 49, 32, 974, 961, 945, 32, 954, 945, 953, 32,
         49, 32, 955, 949, 960, 964, 972, 32, 954, 945, 953, 32,
         49, 32, 948, 949, 965, 964, 949, 961, 972, 955, 949, 960, 964, 959]
   \<and> human_readable_delta_greek_full (7322 * 1000000) =
        [963, 949, 32, 50, 32, 974, 961, 949, 962, 32, 954, 945, 953, 32,
         50, 32, 955, 949, 960, 964, 940, 32, 954, 945, 953, 32,
         50, 32, 948, 949, 965, 964, 949, 961, 972, 955, 949, 960, 964, 945]"
proof (intro conjI impI)
  show "human_readable_delta_greek_full delta = [955, 942, 947, 949, 953, 32, 964, 974, 961, 945]"
    if "delta < 1000000"
    using whole_seconds_small[OF that]
    by (simp add: human_readable_delta_greek_full_def expires_now_def)
  show "human_readable_delta_greek_full delta =
        word_in @ join word_and (map (\<lambda>(n, w). str_of_int n @ str '' '' @ w)
          (filter (\<lambda>(n, w). n \<noteq> 0) [(h, word_hour h), (m, word_minute m), (s, word_second s)]))"
    if a: "1000000 \<le> delta \<and> delta < 2 ^ 53 \<and> delta div 1000000 = 3600 * h + 60 * m + s
        \<and> 0 \<le> m \<and> m < 60 \<and> 0 \<le> s \<and> s < 60"
    using a whole_seconds_large[of delta] by (intro render_components) auto
  show "whole_seconds delta \<in> {delta div 1000000, delta div 1000000 + 1}"
    if "0 < delta \<and> delta div 1000000 < 2 ^ 53"
    using that whole_seconds_near[of delta] by auto
  show "human_readable_delta_greek_full delta =
        word_in @ join word_and (map (\<lambda>(n, w). str_of_int n @ str '' '' @ w)
          (filter (\<lambda>(n, w). n \<noteq> 0) [(h, word_hour h), (m, word_minute m), (s, word_second s)]))"
    if "0 < whole_seconds delta \<and> whole_seconds delta = 3600 * h + 60 * m + s
        \<and> 0 \<le> m \<and> m < 60 \<and> 0 \<le> s \<and> s < 60"
    using that by (intro render_components) auto
  have w1: "whole_seconds 3661000000 = 3661" by (simp add: double_eval)
  have "human_readable_delta_greek_full (3661 * 1000000) =
     word_in @ join word_and (map (\<lambda>(n, w). str_of_int n @ str '' '' @ w)
       (filter (\<lambda>(n, w). n \<noteq> 0) [(1, word_hour 1), (1, word_minute 1), (1, word_second 1)]))"
    by (rule render_components) (simp_all add: w1)
  then show "human_readable_delta_greek_full (3661 * 1000000) =
        [963, 949, 32, 49, 32, 974, 961, 945, 32, 954, 945, 953, 32,
         49, 32, 955, 949, 960, 964, 972, 32, 954, 945, 953, 32,
         49, 32, 948, 949, 965, 964, 949, 961, 972, 955, 949, 960, 964, 959]"
    by (simp add: str_of_int_def digits_small str_def word_in_def word_and_def word_hour_def
        word_minute_def word_second_def)
  have w2: "whole_seconds 7322000000 = 7322" by (simp add: double_eval)
  have "human_readable_delta_greek_full (7322 * 1000000) =
     word_in @ join word_and (map (\<lambda>(n, w). str_of_int n @ str '' '' @ w)
       (filter (\<lambda>(n, w). n \<noteq> 0) [(2, word_hour 2), (2, word_minute 2), (2, word_second 2)]))"
    by (rule render_components) (simp_all add: w2)
  then show "human_readable_delta_greek_full (7322 * 1000000) =
        [963, 949, 32, 50, 32, 974, 961, 949, 962, 32, 954, 945, 953, 32,
         50, 32, 955, 949, 960, 964, 940, 32, 954, 945, 953, 32,
         50, 32, 948, 949, 965, 964, 949, 961, 972, 955, 949, 960, 964, 945]"
    by (simp add: str_of_int_def digits_small str_def word_in_def word_and_def word_hour_def
        word_minute_def word_second_def)
qed

theorem relative_time_rendering_witness:
  "human_readable_delta_greek_full (- 5) = expires_now
   \<and> human_readable_delta_greek_full 0 = expires_now
   \<and> human_readable_delta_greek_full (7260 * 1000000 + 250000) =
       word_in @ str ''2 '' @ word_hour 2 @ word_and @ str ''1 '' @ word_minute 1
   \<and> whole_seconds 19999999999999999 \<in> {19999999999, 20000000000}"
  using relative_time_rendering [of "- 5"] relative_time_rendering [of 0]
    relative_time_rendering [of "7260 * 1000000 + 250000" 2 1 0]
    relative_time_rendering [of 19999999999999999]
  by (simp add: str_of_int_def digits_small str_def expires_now_def)

text \<open>
  Above \<open>2 ^ 53\<close> microseconds the float division can round up to the next second: a
  delta of 19999999999.999999 seconds has 20000000000 whole seconds.
\<close>

lemma whole_seconds_rounds_up: "whole_seconds 19999999999999999 = 20000000000"
  by (simp add: double_eval)

section \<open>Removal of duplicate input lines\<close>

lemma dedupe_inputs_snoc:
  "dedupe_inputs rt (xs @ [x]) = dedupe_step rt (dedupe_inputs rt xs) x"
  by (simp add: dedupe_inputs_def)

lemma dedupe_inputs_Nil:
  "dedupe_inputs rt [] = \<lparr> unique_inputs = [], seen_input_lines = {}, dedupe_log = [] \<rparr>"
  by (simp add: dedupe_inputs_def)

lemma seen_input_lines_eq:
  "seen_input_lines (dedupe_inputs rt xs) = {k. k \<noteq> [] \<and> k \<in> dedupe_key rt ` set xs}"
proof (induction xs rule: rev_induct)
  case Nil
  then show ?case by (simp add: dedupe_inputs_Nil)
next
  case (snoc x xs)
  then show ?case
    by (auto simp add: dedupe_inputs_snoc dedupe_step_def Let_def dedupe_key_def)
qed

lemma unique_inputs_snoc:
  "unique_inputs (dedupe_inputs rt (xs @ [x])) =
     unique_inputs (dedupe_inputs rt xs)
       @ (if dedupe_key rt x \<noteq> [] \<and> dedupe_key rt x \<notin> dedupe_key rt ` set xs then [x] else [])"
  by (simp add: dedupe_inputs_snoc dedupe_step_def Let_def seen_input_lines_eq)
     (simp add: dedupe_key_def)

lemma dedupe_log_snoc:
  "dedupe_log (dedupe_inputs rt (xs @ [x])) =
     dedupe_log (dedupe_inputs rt xs)
       @ (if dedupe_key rt x \<noteq> [] \<and> dedupe_key rt x \<in> dedupe_key rt ` set xs
          then [Skipped_input_line x] else [])"
  by (simp add: dedupe_inputs_snoc dedupe_step_def Let_def seen_input_lines_eq)
     (simp add: dedupe_key_def)

lemma index_filter_snoc:
  assumes "\<And>i. i < length xs \<Longrightarrow> P (xs @ [x]) i = P xs i"
  shows "map ((!) (xs @ [x])) (filter (P (xs @ [x])) [0..<length (xs @ [x])]) =
         map ((!) xs) (filter (P xs) [0..<length xs]) @ (if P (xs @ [x]) (length xs) then [x] else [])"
proof -
  have "filter (P (xs @ [x])) [0..<length xs] = filter (P xs) [0..<length xs]"
    using assms by (intro filter_cong) auto
  moreover have "map ((!) (xs @ [x])) (filter (P xs) [0..<length xs]) = map ((!) xs) (filter (P xs) [0..<length xs])"
    by (intro map_cong) (auto simp add: nth_append)
  ultimately show ?thesis by simp
qed

lemma unique_inputs_indices:
  "unique_inputs (dedupe_inputs rt raw) =
     map ((!) raw) (filter (\<lambda>i. keyed rt raw i \<and> first_of_key rt raw i) [0..<length raw])"
proof (induction raw rule: rev_induct)
  case Nil
  then show ?case by (simp add: dedupe_inputs_Nil)
next
  case (snoc x xs)
  have "map ((!) (xs @ [x])) (filter (\<lambda>i. keyed rt (xs @ [x]) i \<and> first_of_key rt (xs @ [x]) i) [0..<length (xs @ [x])]) =
        map ((!) xs) (filter (\<lambda>i. keyed rt xs i \<and> first_of_key rt xs i) [0..<length xs])
          @ (if keyed rt (xs @ [x]) (length xs) \<and> first_of_key rt (xs @ [x]) (length xs) then [x] else [])"
    by (rule index_filter_snoc[where P = "\<lambda>ys i. keyed rt ys i \<and> first_of_key rt ys i"])
       (simp add: keyed_def first_of_key_def nth_append)
  then show ?case
    using snoc by (simp add: unique_inputs_snoc keyed_def first_of_key_def)
qed

lemma dedupe_log_indices:
  "dedupe_log (dedupe_inputs rt raw) =
     map (\<lambda>i. Skipped_input_line (raw ! i))
       (filter (\<lambda>i. keyed rt raw i \<and> \<not> first_of_key rt raw i) [0..<length raw])"
proof (induction raw rule: rev_induct)
  case Nil
  then show ?case by (simp add: dedupe_inputs_Nil)
next
  case (snoc x xs)
  have "map ((!) (xs @ [x])) (filter (\<lambda>i. keyed rt (xs @ [x]) i \<and> \<not> first_of_key rt (xs @ [x]) i) [0..<length (xs @ [x])]) =
        map ((!) xs) (filter (\<lambda>i. keyed rt xs i \<and> \<not> first_of_key rt xs i) [0..<length xs])
          @ (if keyed rt (xs @ [x]) (length xs) \<and> \<not> first_of_key rt (xs @ [x]) (length xs) then [x] else [])"
    by (rule index_filter_snoc[where P = "\<lambda>ys i. keyed rt ys i \<and> \<not> first_of_key rt ys i"])
       (simp add: keyed_def first_of_key_def nth_append)
  then have "map Skipped_input_line (map ((!) (xs @ [x])) (filter (\<lambda>i. keyed rt (xs @ [x]) i \<and> \<not> first_of_key rt (xs @ [x]) i) [0..<length (xs @ [x])])) =
        map Skipped_input_line (map ((!) xs) (filter (\<lambda>i. keyed rt xs i \<and> \<not> first_of_key rt xs i) [0..<length xs])
          @ (if keyed rt (xs @ [x]) (length xs) \<and> \<not> first_of_key rt (xs @ [x]) (length xs) then [x] else []))"
    by (rule arg_cong)
  then show ?case
    using snoc by (simp add: dedupe_log_snoc keyed_def first_of_key_def comp_def)
qed

lemma four_lines_raw:
  "read_raw_lines [str ''X'', str '' x '', str ''Y'', str ''X''] = [str ''X'', str ''x'', str ''Y'', str ''X'']"
  by (simp add: read_raw_lines_def str_def strip_def isspace_def)

lemma four_lines_dedupe:
  "dedupe_inputs (ascii_runtime loads) [str ''X'', str ''x'', str ''Y'', str ''X''] =
     \<lparr> unique_inputs = [str ''X'', str ''Y''],
       seen_input_lines = {str ''y'', str ''x''},
       dedupe_log = [Skipped_input_line (str ''x''), Skipped_input_line (str ''X'')] \<rparr>"
  by (simp add: dedupe_inputs_def dedupe_step_def ascii_runtime_def ascii_lower_def Let_def
      str_def strip_def isspace_def)

text \<open>
  C8. The loop over the input lines keeps a line exactly when its lowercased, trimmed
  key is not the key of an earlier line, in the original order, and reports every line
  whose key an earlier line has; no line is lost otherwise (a line with an empty key,
  which a non-blank line does not have, is dropped without a report). For the input
  lines \<open>X\<close>, \<open> x \<close>, \<open>Y\<close>, \<open>X\<close> the lines \<open>X\<close> and \<open>Y\<close> survive, and the second and
  the fourth line are reported as skipped.
\<close>

theorem prefetch_dedup_first_occurrence:
  "unique_inputs (dedupe_inputs rt raw) =
     map ((!) raw) (filter (\<lambda>i. keyed rt raw i \<and> first_of_key rt raw i) [0..<length raw])
   \<and> dedupe_log (dedupe_inputs rt raw) =
     map (\<lambda>i. Skipped_input_line (raw ! i))
       (filter (\<lambda>i. keyed rt raw i \<and> \<not> first_of_key rt raw i) [0..<length raw])
   \<and> unique_inputs (dedupe_inputs (ascii_runtime loads)
        (read_raw_lines [str ''X'', str '' x '', str ''Y'', str ''X''])) = [str ''X'', str ''Y'']
   \<and> dedupe_log (dedupe_inputs (ascii_runtime loads)
        (read_raw_lines [str ''X'', str '' x '', str ''Y'', str ''X''])) =
       [Skipped_input_line (read_raw_lines [str ''X'', str '' x '', str ''Y'', str ''X''] ! 1),
        Skipped_input_line (read_raw_lines [str ''X'', str '' x '', str ''Y'', str ''X''] ! 3)]"
  by (simp only: unique_inputs_indices dedupe_log_indices four_lines_raw four_lines_dedupe)
     simp

section \<open>Evaluation of example runs\<close>

lemmas run_eval =
  run_yt_dlp_cmd_with_retries_def retry_loop.simps run_yt_dlp_cmd_def run_cmd_def runs_def
  scripted_def failing_def flaky_def Let_def

lemmas string_eval =
  str_def strip_def isspace_def startswith_def splitlines_def is_linebreak_def
  truthy_str_def or_str_def str_or_def

lemma meta_scripted:
  "get_minimal_meta (scripted [] d j) u tmo None None n [] =
     ((None, None, None), [Run [str ''yt-dlp'', str ''--print'', print_format, u] tmo])"
  by (simp add: get_minimal_meta_def run_eval proc_output_def strip_def)

lemma stream_scripted_expire0:
  "get_stream_url_with_ytdlp rt (scripted [] (str ''http://h/expire/0/v'') j) u f tmo None None n tr =
     (Inr (PStr (str ''http://h/expire/0/v'')), tr @ [Run [str ''yt-dlp'', str ''-g'', u] tmo])"
  by (simp add: get_stream_url_with_ytdlp_def try_default_def run_eval proc_output_def
        first_http_line_def)
     (simp add: string_eval)

lemma worker_expire0:
  "fst (check_url_entry_buffered (ascii_runtime no_json) (scripted [] (str ''http://h/expire/0/v'') [])
         (str ''a'') defaults []) =
     Inr (plain (str ''a'') None (Some (str ''a'')) (Some (str ''http://h/expire/0/v'')) (Some 0))"
  apply (simp add: check_url_entry_buffered_def worker_meta_def worker_stream_def defaults_def
      meta_scripted stream_scripted_expire0 plain_def Let_def)
  apply (simp add: string_eval normalize_input_line_def ascii_runtime_def ascii_lower_def
      is_digit_def int_of_ascii_def expire_of_def)
  done


section \<open>Aggregation of the expiry\<close>

lemma set_map_filter: "set (List.map_filter f xs) = {y. \<exists>x\<in>set xs. f x = Some y}"
  by (induction xs) (auto simp add: List.map_filter_simps split: option.splits)

lemma set_expire_epochs:
  "set (expire_epochs buffered) = {e. e \<noteq> 0 \<and> Some e \<in> expire_epoch ` set buffered}"
proof -
  have "(case expire_epoch r of None \<Rightarrow> None | Some e \<Rightarrow> if e \<noteq> 0 then Some e else None) = Some y
          \<longleftrightarrow> y \<noteq> 0 \<and> expire_epoch r = Some y" for r :: resolved and y
    by (cases "expire_epoch r") auto
  then have "set (expire_epochs buffered) = {y. \<exists>r\<in>set buffered. y \<noteq> 0 \<and> expire_epoch r = Some y}"
    by (simp add: expire_epochs_def set_map_filter)
  also have "\<dots> = {e. e \<noteq> 0 \<and> Some e \<in> expire_epoch ` set buffered}"
    by (auto simp add: image_iff) metis
  finally show ?thesis .
qed

lemma expire_max_eq:
  "expire_max buffered =
     (if \<exists>e. e \<noteq> 0 \<and> Some e \<in> expire_epoch ` set buffered
      then Some (Max {e. e \<noteq> 0 \<and> Some e \<in> expire_epoch ` set buffered}) else None)"
proof -
  have "expire_epochs buffered \<noteq> [] \<longleftrightarrow> (\<exists>e. e \<noteq> 0 \<and> Some e \<in> expire_epoch ` set buffered)"
    using set_expire_epochs[of buffered] by (metis (mono_tags, lifting) Collect_empty_eq set_empty)
  then show ?thesis by (simp add: expire_max_def set_expire_epochs)
qed

lemma expire_max_none:
  assumes "\<forall>r\<in>set buffered. expire_epoch r = None"
  shows "expire_max buffered = None"
  using assms by (auto simp add: expire_max_eq image_iff)

lemma special_not_available:
  assumes "expire_max buffered = None"
  shows "special_extinf_of clk fav buffered =
     extinf_line (Some (str ''info'')) (Some fav)
       (links_expiry @ not_available @ str '' ('' @ not_available @ str '')'')"
  using assms
  by (simp add: special_extinf_of_def expiry_strings_def build_special_extinf_only_expire_def
      not_available_def)

text \<open>
  C2. \<open>expire_max\<close> is the maximum of the expiry epochs of the buffered records that are
  neither absent nor zero, and \<open>None\<close> when there is none. For the epochs 100, 300 and
  \<open>None\<close> it is 300. When every record's expiry is \<open>None\<close> it is \<open>None\<close>, and the title of
  the special entry is the label followed by the "not available" sentinel, in place of
  the date and of the countdown.
\<close>

theorem expiry_aggregation:
  "expire_max buffered =
     (if \<exists>e. e \<noteq> 0 \<and> Some e \<in> expire_epoch ` set buffered
      then Some (Max {e. e \<noteq> 0 \<and> Some e \<in> expire_epoch ` set buffered}) else None)
   \<and> expire_max [plain a None None None (Some 100), plain b None None None (Some 300),
                  plain c None None None None] = Some 300
   \<and> ((\<forall>r\<in>set buffered. expire_epoch r = None) \<longrightarrow>
        expire_max buffered = None
        \<and> special_extinf_of clk fav buffered =
            extinf_line (Some (str ''info'')) (Some fav)
              (links_expiry @ not_available @ str '' ('' @ not_available @ str '')''))"
proof (intro conjI impI)
  show "expire_max buffered =
     (if \<exists>e. e \<noteq> 0 \<and> Some e \<in> expire_epoch ` set buffered
      then Some (Max {e. e \<noteq> 0 \<and> Some e \<in> expire_epoch ` set buffered}) else None)"
    by (rule expire_max_eq)
  show "expire_max [plain a None None None (Some 100), plain b None None None (Some 300),
                  plain c None None None None] = Some 300"
    by (simp add: expire_max_def expire_epochs_def List.map_filter_simps plain_def)
  show "expire_max buffered = None" if "\<forall>r\<in>set buffered. expire_epoch r = None"
    using that by (rule expire_max_none)
  show "special_extinf_of clk fav buffered =
            extinf_line (Some (str ''info'')) (Some fav)
              (links_expiry @ not_available @ str '' ('' @ not_available @ str '')'')"
    if "\<forall>r\<in>set buffered. expire_epoch r = None"
    using that by (intro special_not_available expire_max_none)
qed

theorem expiry_aggregation_witness:
  "expire_epoch (plain (str ''a'') None None None None) = None
   \<and> expire_max [plain (str ''a'') None None None None] = None
   \<and> special_extinf_of fixed_clock (str ''http://i/f.png'') [plain (str ''a'') None None None None] =
       str ''#EXTINF:-1 tvg-id='' @ [34] @ str ''info'' @ [34] @ str '' tvg-logo='' @ [34]
         @ str ''http://i/f.png'' @ [34] @ str '','' @ links_expiry @ not_available
         @ str '' ('' @ not_available @ str '')'' @ [10]"
  using expiry_aggregation [of "[plain (str ''a'') None None None None]" a b c fixed_clock
      "str ''http://i/f.png''"]
  by (simp add: plain_def extinf_line_def safe_attr_def replace_char_def truthy_str_def Let_def
      links_expiry_def not_available_def)
     (simp add: str_def strip_def isspace_def)

text \<open>
  An endpoint that carries \<open>expire/0\<close> gives its record the expiry epoch 0, which is not
  \<open>None\<close>; the maximum of the epochs present is then 0, and \<open>expire_max\<close> is \<open>None\<close>.
\<close>

theorem expiry_zero_counterexample:
  "fst (check_url_entry_buffered (ascii_runtime no_json)
          (scripted [] (str ''http://h/expire/0/v'') []) (str ''a'') defaults []) =
     Inr (plain (str ''a'') None (Some (str ''a'')) (Some (str ''http://h/expire/0/v'')) (Some 0))
   \<and> expire_epoch (plain (str ''a'') None (Some (str ''a'')) (Some (str ''http://h/expire/0/v'')) (Some 0))
       = Some 0
   \<and> expire_max [plain (str ''a'') None (Some (str ''a'')) (Some (str ''http://h/expire/0/v'')) (Some 0)]
       = None"
  by (simp add: worker_expire0)
     (simp add: expire_max_def expire_epochs_def List.map_filter_simps plain_def)

section \<open>The loop that writes the entries\<close>

lemma emit_entries_Nil:
  "emit_entries rt sp fav [] =
     \<lparr> added_keys = {}, added_urls = {}, out_f = [], emit_log = [], branches = [] \<rparr>"
  by (simp add: emit_entries_def)

lemma emit_entries_snoc:
  "emit_entries rt sp fav (xs @ [r]) = emit_step rt sp fav (emit_entries rt sp fav xs) r"
  by (simp add: emit_entries_def)

lemma truthy_str_url: "truthy_str (Some u) \<Longrightarrow> str_or (Some u) [] = u"
  by (simp add: truthy_str_def str_or_def)

lemma emit_step_branches:
  "\<exists>b. branches (emit_step rt sp fav st r) = branches st @ [b]"
  by (simp add: emit_step_def Let_def)

lemma length_branches: "length (branches (emit_entries rt sp fav xs)) = length xs"
proof (induction xs rule: rev_induct)
  case Nil
  then show ?case by (simp add: emit_entries_Nil)
next
  case (snoc r xs)
  obtain b where "branches (emit_entries rt sp fav (xs @ [r])) = branches (emit_entries rt sp fav xs) @ [b]"
    using emit_step_branches[of rt sp fav "emit_entries rt sp fav xs" r]
    by (auto simp add: emit_entries_snoc)
  with snoc show ?case by simp
qed

lemma emitted_snoc:
  assumes "branches (emit_entries rt sp fav (xs @ [r])) = branches (emit_entries rt sp fav xs) @ [b]"
  shows "emitted rt sp fav (xs @ [r]) = emitted rt sp fav xs @ (if b = Written then [r] else [])"
  using assms length_branches[of rt sp fav xs]
  by (simp add: emitted_def)

lemma emitted_Nil: "emitted rt sp fav [] = []"
  by (simp add: emitted_def)

lemma emitted_truthy: "r \<in> set (emitted rt sp fav xs) \<Longrightarrow> truthy_str (stream_url r)"
proof (induction xs rule: rev_induct)
  case Nil
  then show ?case by (simp add: emitted_Nil)
next
  case (snoc x xs)
  obtain b where b: "branches (emit_entries rt sp fav (xs @ [x])) = branches (emit_entries rt sp fav xs) @ [b]"
    using emit_step_branches[of rt sp fav "emit_entries rt sp fav xs" x]
    by (auto simp add: emit_entries_snoc)
  show ?case
  proof (cases "r \<in> set (emitted rt sp fav xs)")
    case True
    then show ?thesis by (rule snoc.IH)
  next
    case False
    with snoc.prems have "b = Written" "r = x"
      by (auto simp add: emitted_snoc[OF b] split: if_splits)
    with b show ?thesis
      by (auto simp add: emit_entries_snoc emit_step_def Let_def split: if_splits)
  qed
qed














section \<open>Examples of the loop that writes the entries\<close>











section \<open>The order of the entries\<close>


lemma collect_snoc: "collect fut (cs @ [i]) = collect_step fut (collect fut cs) i"
  by (simp add: collect_def)






section \<open>Retries of a resolver call\<close>

lemma runs_simps:
  "runs [] = 0"
  "runs (tr @ tr') = runs tr + runs tr'"
  "runs [Run c t] = 1"
  "runs [Sleep d] = 0"
  by (simp_all add: runs_def)

lemma run_yt_dlp_cmd_eq:
  "run_yt_dlp_cmd orc args ck cfb tmo tr =
     (orc (runs tr) (command_line args ck cfb) tmo, tr @ [Run (command_line args ck cfb) tmo])"
  by (cases ck; cases cfb)
     (simp_all add: run_yt_dlp_cmd_def run_cmd_def command_line_def truthy_str_def str_or_def Let_def)

lemma retry_loop_success:
  assumes "orc (runs tr) (command_line args ck cfb) tmo = Inr p"
  shows "retry_loop orc args ck cfb tmo n b a tr = (Inr p, tr @ [Run (command_line args ck cfb) tmo])"
  using assms by (subst retry_loop.simps) (simp add: run_yt_dlp_cmd_eq)

lemma retry_loop_give_up:
  assumes "orc (runs tr) (command_line args ck cfb) tmo = Inl e" "a + 1 > n"
  shows "retry_loop orc args ck cfb tmo n b a tr = (Inl e, tr @ [Run (command_line args ck cfb) tmo])"
  using assms by (subst retry_loop.simps) (simp add: run_yt_dlp_cmd_eq)

lemma retry_loop_again:
  assumes "orc (runs tr) (command_line args ck cfb) tmo = Inl e" "\<not> a + 1 > n"
  shows "retry_loop orc args ck cfb tmo n b a tr =
     retry_loop orc args ck cfb tmo n b (a + 1)
       (tr @ [Run (command_line args ck cfb) tmo, Sleep (b * of_int (a + 1))])"
  using assms by (subst retry_loop.simps) (simp add: run_yt_dlp_cmd_eq)

text \<open>The trace of \<open>k\<close> failures and one more attempt, from the value \<open>a\<close> of \<open>attempt\<close>.\<close>

lemma upt_shift: "[0..<Suc k] = 0 # map Suc [0..<k]"
  by (simp add: upt_conv_Cons map_Suc_upt del: upt_Suc)

lemma retry_loop_succeeds_after:
  assumes "\<forall>i<k. isl (orc (runs tr + i) (command_line args ck cfb) tmo)"
    and "orc (runs tr + k) (command_line args ck cfb) tmo = Inr p"
    and "a + int k \<le> n"
  shows "retry_loop orc args ck cfb tmo n b a tr =
     (Inr p, tr @ concat (map (\<lambda>i. [Run (command_line args ck cfb) tmo, Sleep (b * of_int (a + 1 + int i))]) [0..<k])
                @ [Run (command_line args ck cfb) tmo])"
  using assms
proof (induction k arbitrary: a tr)
  case 0
  then show ?case by (simp add: retry_loop_success)
next
  case (Suc k)
  let ?c = "command_line args ck cfb"
  let ?tr = "tr @ [Run ?c tmo, Sleep (b * of_int (a + 1))]"
  from Suc.prems(1) have "isl (orc (runs tr) ?c tmo)" by (metis add.right_neutral zero_less_Suc)
  then obtain e where e: "orc (runs tr) ?c tmo = Inl e" by (cases "orc (runs tr) ?c tmo") auto
  have r: "runs ?tr = Suc (runs tr)" by (simp add: runs_def)
  have s1: "retry_loop orc args ck cfb tmo n b a tr = retry_loop orc args ck cfb tmo n b (a + 1) ?tr"
    using e Suc.prems(3) by (intro retry_loop_again) auto
  have s2: "retry_loop orc args ck cfb tmo n b (a + 1) ?tr = (Inr p, ?tr @ concat (map (\<lambda>i. [Run ?c tmo, Sleep (b * of_int ((a + 1) + 1 + int i))]) [0..<k])
                @ [Run ?c tmo])"
  proof (rule Suc.IH)
    show "\<forall>i<k. isl (orc (runs ?tr + i) ?c tmo)"
      unfolding r
    proof (intro allI impI)
      fix i assume "i < k"
      then have "Suc i < Suc k" by simp
      with Suc.prems(1) have "isl (orc (runs tr + Suc i) ?c tmo)" by blast
      then show "isl (orc (Suc (runs tr) + i) ?c tmo)" by simp
    qed
    show "orc (runs ?tr + k) ?c tmo = Inr p" unfolding r using Suc.prems(2) by simp
    show "a + 1 + int k \<le> n" using Suc.prems(3) by simp
  qed
  have s3: "?tr @ concat (map (\<lambda>i. [Run ?c tmo, Sleep (b * of_int ((a + 1) + 1 + int i))]) [0..<k]) =
      tr @ concat (map (\<lambda>i. [Run ?c tmo, Sleep (b * of_int (a + 1 + int i))]) [0..<Suc k])"
    unfolding upt_shift by (simp add: comp_def add.commute add.left_commute)
  show ?case unfolding s1 s2 using s3 by simp
qed

lemma retry_loop_exhausted:
  assumes "\<forall>i\<le>k. isl (orc (runs tr + i) (command_line args ck cfb) tmo)"
    and "k = nat (n - a)"
  shows "retry_loop orc args ck cfb tmo n b a tr =
     (orc (runs tr + k) (command_line args ck cfb) tmo,
      tr @ concat (map (\<lambda>i. [Run (command_line args ck cfb) tmo, Sleep (b * of_int (a + 1 + int i))]) [0..<k])
         @ [Run (command_line args ck cfb) tmo])"
  using assms
proof (induction k arbitrary: a tr)
  case 0
  let ?c = "command_line args ck cfb"
  from "0.prems"(1) obtain e where e: "orc (runs tr) ?c tmo = Inl e"
    by (cases "orc (runs tr) ?c tmo") auto
  from "0.prems"(2) have "a + 1 > n" by simp
  with e show ?case by (simp add: retry_loop_give_up)
next
  case (Suc k)
  let ?c = "command_line args ck cfb"
  let ?tr = "tr @ [Run ?c tmo, Sleep (b * of_int (a + 1))]"
  from Suc.prems(1) have "isl (orc (runs tr) ?c tmo)" by (metis add.right_neutral le0)
  then obtain e where e: "orc (runs tr) ?c tmo = Inl e" by (cases "orc (runs tr) ?c tmo") auto
  have r: "runs ?tr = Suc (runs tr)" by (simp add: runs_def)
  have s1: "retry_loop orc args ck cfb tmo n b a tr = retry_loop orc args ck cfb tmo n b (a + 1) ?tr"
    using e Suc.prems(2) by (intro retry_loop_again) auto
  have s2: "retry_loop orc args ck cfb tmo n b (a + 1) ?tr = (orc (runs ?tr + k) ?c tmo,
      ?tr @ concat (map (\<lambda>i. [Run ?c tmo, Sleep (b * of_int ((a + 1) + 1 + int i))]) [0..<k]) @ [Run ?c tmo])"
  proof (rule Suc.IH)
    show "\<forall>i\<le>k. isl (orc (runs ?tr + i) ?c tmo)"
      unfolding r
    proof (intro allI impI)
      fix i assume "i \<le> k"
      then have "Suc i \<le> Suc k" by simp
      with Suc.prems(1) have "isl (orc (runs tr + Suc i) ?c tmo)" by blast
      then show "isl (orc (Suc (runs tr) + i) ?c tmo)" by simp
    qed
    show "k = nat (n - (a + 1))" using Suc.prems(2) by simp
  qed
  have s3: "?tr @ concat (map (\<lambda>i. [Run ?c tmo, Sleep (b * of_int ((a + 1) + 1 + int i))]) [0..<k]) =
      tr @ concat (map (\<lambda>i. [Run ?c tmo, Sleep (b * of_int (a + 1 + int i))]) [0..<Suc k])"
    unfolding upt_shift by (simp add: comp_def add.commute add.left_commute)
  show ?case unfolding s1 s2 r using s3 by simp
qed

lemma attempts_eq:
  "attempts c tmo b k =
     concat (map (\<lambda>i. [Run c tmo, Sleep (b * of_int (0 + 1 + int i))]) [0..<k]) @ [Run c tmo]"
  by (simp add: attempts_def add.commute)

lemma retries_success:
  assumes "k \<le> nat n" "\<forall>i<k. isl (orc (runs tr + i) (command_line args ck cfb) tmo)"
    and "orc (runs tr + k) (command_line args ck cfb) tmo = Inr p"
  shows "run_yt_dlp_cmd_with_retries orc args ck cfb tmo n b tr =
     (Inr p, tr @ attempts (command_line args ck cfb) tmo b k)"
proof -
  have "0 + int k \<le> n \<or> k = 0" using assms(1) by linarith
  then show ?thesis
  proof
    assume "0 + int k \<le> n"
    then show ?thesis
      unfolding run_yt_dlp_cmd_with_retries_def attempts_eq
      using retry_loop_succeeds_after[where orc = orc and tr = tr and k = k and p = p and a = 0
          and n = n and b = b and args = args and ck = ck and cfb = cfb and tmo = tmo] assms(2,3)
      by simp
  next
    assume "k = 0"
    then show ?thesis
      unfolding run_yt_dlp_cmd_with_retries_def attempts_eq
      using assms(3) by (simp add: retry_loop_success)
  qed
qed

lemma retries_exhausted:
  assumes "\<forall>i\<le>nat n. orc (runs tr + i) (command_line args ck cfb) tmo = Inl (e i)"
  shows "run_yt_dlp_cmd_with_retries orc args ck cfb tmo n b tr =
     (Inl (e (nat n)), tr @ attempts (command_line args ck cfb) tmo b (nat n))"
proof -
  have "\<forall>i\<le>nat n. isl (orc (runs tr + i) (command_line args ck cfb) tmo)"
    using assms by simp
  then have "retry_loop orc args ck cfb tmo n b 0 tr =
     (orc (runs tr + nat n) (command_line args ck cfb) tmo,
      tr @ concat (map (\<lambda>i. [Run (command_line args ck cfb) tmo, Sleep (b * of_int (0 + 1 + int i))]) [0..<nat n])
         @ [Run (command_line args ck cfb) tmo])"
    by (rule retry_loop_exhausted) simp
  then show ?thesis
    unfolding run_yt_dlp_cmd_with_retries_def attempts_eq using assms by simp
qed

lemma retry_loop_all_fail:
  assumes "\<forall>i c t. isl (orc i c t)"
  shows "isl (fst (retry_loop orc args ck cfb tmo n b a tr))"
  using assms
proof (induction orc args ck cfb tmo n b a tr rule: retry_loop.induct)
  case (1 orc args ck cfb tmo n b a tr)
  from "1.prems" have "isl (orc (runs tr) (command_line args ck cfb) tmo)" by blast
  then obtain e where e: "orc (runs tr) (command_line args ck cfb) tmo = Inl e"
    by (cases "orc (runs tr) (command_line args ck cfb) tmo") auto
  show ?case
  proof (cases "a + 1 > n")
    case True
    with e show ?thesis by (simp add: retry_loop_give_up)
  next
    case False
    have "isl (fst (retry_loop orc args ck cfb tmo n b (a + 1)
        (tr @ [Run (command_line args ck cfb) tmo] @ [Sleep (b * of_int (a + 1))])))"
      using e False "1.prems" "1.IH"[of "Inl e" "tr @ [Run (command_line args ck cfb) tmo]" e]
      by (simp add: run_yt_dlp_cmd_eq)
    with e False show ?thesis by (simp add: retry_loop_again)
  qed
qed

lemma retries_all_fail:
  assumes "\<forall>i c t. isl (orc i c t)"
  shows "isl (fst (run_yt_dlp_cmd_with_retries orc args ck cfb tmo n b tr))"
  unfolding run_yt_dlp_cmd_with_retries_def using assms by (rule retry_loop_all_fail)


section \<open>The worker\<close>

lemma normalize_nonempty: "strip x \<noteq> [] \<Longrightarrow> normalize_input_line x \<noteq> []"
  by (simp add: normalize_input_line_def Let_def)

lemma meta_all_fail:
  assumes "\<forall>i c t. isl (orc i c t)"
  shows "fst (get_minimal_meta orc u tmo ck cfb n tr) = (None, None, None)"
  using retries_all_fail[OF assms, of "[str ''--print'', print_format, u]" ck cfb tmo n "3 / 2" tr]
  by (auto simp add: get_minimal_meta_def split: prod.splits sum.splits)

lemma try_default_all_fail:
  assumes "\<forall>i c t. isl (orc i c t)"
  shows "fst (try_default orc u tmo ck cfb n tr) = None"
  using retries_all_fail[OF assms, of "[str ''-g'', u]" ck cfb tmo n "3 / 2" tr]
  by (auto simp add: try_default_def split: prod.splits sum.splits)

lemma try_format_all_fail:
  assumes "\<forall>i c t. isl (orc i c t)"
  shows "fst (try_format orc u f tmo ck cfb n tr) = None"
  using retries_all_fail[OF assms, of "[str ''-f'', f, str ''-g'', u]" ck cfb tmo n "3 / 2" tr]
  by (auto simp add: try_format_def split: prod.splits sum.splits)

lemma try_json_all_fail:
  assumes "\<forall>i c t. isl (orc i c t)"
  shows "fst (try_json rt orc u tmo ck cfb n tr) = None"
  using retries_all_fail[OF assms, of "[str ''-j'', u]" ck cfb tmo n "3 / 2" tr]
  by (auto simp add: try_json_def split: prod.splits sum.splits)

lemma stream_chain:
  "fst (get_stream_url_with_ytdlp rt orc u f tmo ck cfb n tr) =
     (case fst (try_default orc u tmo ck cfb n tr) of
        Some m \<Rightarrow> Inr m
      | None \<Rightarrow>
          (case fst (try_format orc u f tmo ck cfb n (snd (try_default orc u tmo ck cfb n tr))) of
             Some m \<Rightarrow> Inr m
           | None \<Rightarrow>
               (case fst (try_json rt orc u tmo ck cfb n
                            (snd (try_format orc u f tmo ck cfb n (snd (try_default orc u tmo ck cfb n tr))))) of
                  Some v \<Rightarrow> Inr v
                | None \<Rightarrow> Inr PNone)))"
proof -
  obtain a t1 where a: "try_default orc u tmo ck cfb n tr = (a, t1)"
    by (cases "try_default orc u tmo ck cfb n tr")
  obtain b t2 where b: "try_format orc u f tmo ck cfb n t1 = (b, t2)"
    by (cases "try_format orc u f tmo ck cfb n t1")
  obtain c t3 where c: "try_json rt orc u tmo ck cfb n t2 = (c, t3)"
    by (cases "try_json rt orc u tmo ck cfb n t2")
  show ?thesis
    by (cases a; cases b; cases c) (simp_all add: get_stream_url_with_ytdlp_def a b c)
qed

lemma stream_all_fail:
  assumes "\<forall>i c t. isl (orc i c t)"
  shows "fst (get_stream_url_with_ytdlp rt orc u f tmo ck cfb n tr) = Inr PNone"
  by (simp add: stream_chain try_default_all_fail[OF assms] try_format_all_fail[OF assms]
      try_json_all_fail[OF assms])

lemma worker_meta_all_fail:
  assumes "\<forall>i c t. isl (orc i c t)"
  shows "fst (worker_meta orc line cfg tr) = (None, Some line, None)"
  using meta_all_fail[OF assms, of "normalize_input_line line" "timeout cfg" "cookies cfg"
      "cookies_from_browser cfg" "retries cfg" tr]
  by (auto simp add: worker_meta_def Let_def truthy_str_def split: prod.splits)

lemma worker_stream_fst:
  "fst (worker_stream rt orc line cfg tr) =
     (if resolution_fails (fst (get_stream_url_with_ytdlp rt orc (normalize_input_line line) (fmt cfg)
            (timeout cfg) (cookies cfg) (cookies_from_browser cfg) (retries cfg) tr))
      then (if fallback_watch cfg then PStr (normalize_input_line line)
            else (case fst (get_stream_url_with_ytdlp rt orc (normalize_input_line line) (fmt cfg)
                    (timeout cfg) (cookies cfg) (cookies_from_browser cfg) (retries cfg) tr) of
                    Inl e \<Rightarrow> PNone | Inr v \<Rightarrow> v))
      else (case fst (get_stream_url_with_ytdlp rt orc (normalize_input_line line) (fmt cfg)
                    (timeout cfg) (cookies cfg) (cookies_from_browser cfg) (retries cfg) tr) of
              Inl e \<Rightarrow> PNone | Inr v \<Rightarrow> v))"
  by (auto simp add: worker_stream_def Let_def resolution_fails_def split: prod.splits sum.splits)

lemma worker_result:
  assumes "strip raw \<noteq> []"
  shows "fst (check_url_entry_buffered rt orc raw cfg tr) =
     (if truthy (fst (worker_stream rt orc (strip raw) cfg (snd (worker_meta orc (strip raw) cfg tr))))
      then (case fst (worker_stream rt orc (strip raw) cfg (snd (worker_meta orc (strip raw) cfg tr))) of
              PStr u \<Rightarrow>
                Inr \<lparr> input_line = strip raw,
                      meta_id = fst (fst (worker_meta orc (strip raw) cfg tr)),
                      title = fst (snd (fst (worker_meta orc (strip raw) cfg tr))),
                      thumbnail = snd (snd (fst (worker_meta orc (strip raw) cfg tr))),
                      stream_url = Some u, expire_epoch = expire_of rt u \<rparr>
            | other \<Rightarrow> Inl TypeError)
      else Inr \<lparr> input_line = strip raw,
                 meta_id = fst (fst (worker_meta orc (strip raw) cfg tr)),
                 title = fst (snd (fst (worker_meta orc (strip raw) cfg tr))),
                 thumbnail = snd (snd (fst (worker_meta orc (strip raw) cfg tr))),
                 stream_url = falsy_endpoint
                   (fst (worker_stream rt orc (strip raw) cfg (snd (worker_meta orc (strip raw) cfg tr)))),
                 expire_epoch = None \<rparr>)"
  using assms
  by (simp add: check_url_entry_buffered_def Let_def split: prod.splits pyval.splits)

lemma worker_all_fail:
  assumes "\<forall>i c t. isl (orc i c t)" "strip raw \<noteq> []"
  shows "fst (check_url_entry_buffered rt orc raw cfg tr) =
     Inr \<lparr> input_line = strip raw, meta_id = None, title = Some (strip raw), thumbnail = None,
           stream_url = (if fallback_watch cfg then Some (normalize_input_line raw) else None),
           expire_epoch = (if fallback_watch cfg then expire_of rt (normalize_input_line raw) else None) \<rparr>"
  using normalize_nonempty[OF assms(2)]
  by (simp add: worker_result[OF assms(2)] worker_stream_fst stream_all_fail[OF assms(1)]
      worker_meta_all_fail[OF assms(1)] resolution_fails_def normalize_strip)


lemma attempts_two:
  "attempts c t b 2 = [Run c t, Sleep b, Run c t, Sleep (b * 2), Run c t]"
  unfolding numeral_2_eq_2 by (simp add: attempts_def)

text \<open>
  C6. A resolver call that fails \<open>k\<close> times, with \<open>k\<close> at most \<open>retries\<close>, and then
  succeeds returns the result of that attempt, after sleeping \<open>backoff * i\<close> between the
  \<open>i\<close>-th failure and the next attempt. A call whose first \<open>retries + 1\<close> attempts all
  fail propagates the exception of the last one, after \<open>retries\<close> sleeps of the same
  lengths. When every resolver call fails, the metadata are absent, the stream
  resolution returns \<open>None\<close> and the worker returns its tuple: the failure does not leave
  the worker.
\<close>

theorem retries_linear_backoff:
  "(k \<le> nat n \<and> (\<forall>i<k. isl (orc (runs tr + i) (command_line args ck cfb) tmo))
      \<and> orc (runs tr + k) (command_line args ck cfb) tmo = Inr p \<longrightarrow>
    run_yt_dlp_cmd_with_retries orc args ck cfb tmo n b tr =
      (Inr p, tr @ attempts (command_line args ck cfb) tmo b k))
   \<and> ((\<forall>i\<le>nat n. orc (runs tr + i) (command_line args ck cfb) tmo = Inl (e i)) \<longrightarrow>
    run_yt_dlp_cmd_with_retries orc args ck cfb tmo n b tr =
      (Inl (e (nat n)), tr @ attempts (command_line args ck cfb) tmo b (nat n)))
   \<and> ((\<forall>i c t. isl (orc i c t)) \<and> strip raw \<noteq> [] \<longrightarrow>
    fst (get_minimal_meta orc u tmo ck cfb n tr) = (None, None, None)
    \<and> fst (get_stream_url_with_ytdlp rt orc u f tmo ck cfb n tr) = Inr PNone
    \<and> fst (check_url_entry_buffered rt orc raw cfg tr) =
        Inr \<lparr> input_line = strip raw, meta_id = None, title = Some (strip raw), thumbnail = None,
              stream_url = (if fallback_watch cfg then Some (normalize_input_line raw) else None),
              expire_epoch =
                (if fallback_watch cfg then expire_of rt (normalize_input_line raw) else None) \<rparr>)"
proof (intro conjI impI)
  show "run_yt_dlp_cmd_with_retries orc args ck cfb tmo n b tr =
      (Inr p, tr @ attempts (command_line args ck cfb) tmo b k)"
    if "k \<le> nat n \<and> (\<forall>i<k. isl (orc (runs tr + i) (command_line args ck cfb) tmo))
      \<and> orc (runs tr + k) (command_line args ck cfb) tmo = Inr p"
    using that by (intro retries_success) auto
  show "run_yt_dlp_cmd_with_retries orc args ck cfb tmo n b tr =
      (Inl (e (nat n)), tr @ attempts (command_line args ck cfb) tmo b (nat n))"
    if "\<forall>i\<le>nat n. orc (runs tr + i) (command_line args ck cfb) tmo = Inl (e i)"
    using that by (rule retries_exhausted)
  assume a: "(\<forall>i c t. isl (orc i c t)) \<and> strip raw \<noteq> []"
  then have f: "\<forall>i c t. isl (orc i c t)" and ne: "strip raw \<noteq> []" by auto
  show "fst (get_minimal_meta orc u tmo ck cfb n tr) = (None, None, None)"
    using f by (rule meta_all_fail)
  show "fst (get_stream_url_with_ytdlp rt orc u f tmo ck cfb n tr) = Inr PNone"
    using f by (rule stream_all_fail)
  show "fst (check_url_entry_buffered rt orc raw cfg tr) =
        Inr \<lparr> input_line = strip raw, meta_id = None, title = Some (strip raw), thumbnail = None,
              stream_url = (if fallback_watch cfg then Some (normalize_input_line raw) else None),
              expire_epoch =
                (if fallback_watch cfg then expire_of rt (normalize_input_line raw) else None) \<rparr>"
    using f ne by (rule worker_all_fail)
qed

theorem retries_linear_backoff_witness:
  "run_yt_dlp_cmd_with_retries (flaky 2 (str ''ok'')) [str ''-g'', str ''u''] None None 60 2 (3 / 2) [] =
     (Inr \<lparr> stdout = str ''ok'', stderr = [] \<rparr>,
      [Run [str ''yt-dlp'', str ''-g'', str ''u''] 60, Sleep (3 / 2),
       Run [str ''yt-dlp'', str ''-g'', str ''u''] 60, Sleep 3,
       Run [str ''yt-dlp'', str ''-g'', str ''u''] 60])
   \<and> run_yt_dlp_cmd_with_retries failing [str ''-g'', str ''u''] None None 60 2 (3 / 2) [] =
     (Inl TimeoutExpired,
      [Run [str ''yt-dlp'', str ''-g'', str ''u''] 60, Sleep (3 / 2),
       Run [str ''yt-dlp'', str ''-g'', str ''u''] 60, Sleep 3,
       Run [str ''yt-dlp'', str ''-g'', str ''u''] 60])
   \<and> fst (check_url_entry_buffered (ascii_runtime no_json) failing (str ''abc'')
          (defaults\<lparr> fallback_watch := False \<rparr>) []) =
       Inr (plain (str ''abc'') None (Some (str ''abc'')) None None)"
proof -
  have s: "strip (str ''abc'') = str ''abc''" by (simp add: str_def strip_def isspace_def)
  have c: "command_line [str ''-g'', str ''u''] None None = [str ''yt-dlp'', str ''-g'', str ''u'']"
    by (simp add: command_line_def truthy_str_def)
  have "run_yt_dlp_cmd_with_retries (flaky 2 (str ''ok'')) [str ''-g'', str ''u''] None None 60 2 (3 / 2) [] =
      (Inr \<lparr> stdout = str ''ok'', stderr = [] \<rparr>,
       [] @ attempts (command_line [str ''-g'', str ''u''] None None) 60 (3 / 2) 2)"
    using retries_linear_backoff [where k = 2 and n = 2 and orc = "flaky 2 (str ''ok'')"
        and tr = "[]" and args = "[str ''-g'', str ''u'']" and ck = None and cfb = None and tmo = 60
        and p = "\<lparr> stdout = str ''ok'', stderr = [] \<rparr>" and b = "3 / 2"]
    by (simp add: flaky_def runs_simps)
  moreover have "run_yt_dlp_cmd_with_retries failing [str ''-g'', str ''u''] None None 60 2 (3 / 2) [] =
      (Inl TimeoutExpired,
       [] @ attempts (command_line [str ''-g'', str ''u''] None None) 60 (3 / 2) (nat 2))"
    using retries_linear_backoff [where n = 2 and orc = failing
        and tr = "[]" and args = "[str ''-g'', str ''u'']" and ck = None and cfb = None and tmo = 60
        and e = "\<lambda>i. TimeoutExpired" and b = "3 / 2"]
    by (simp add: failing_def)
  moreover have "fst (check_url_entry_buffered (ascii_runtime no_json) failing (str ''abc'')
          (defaults\<lparr> fallback_watch := False \<rparr>) []) =
       Inr (plain (str ''abc'') None (Some (str ''abc'')) None None)"
    using retries_linear_backoff [where orc = failing and raw = "str ''abc''"
        and rt = "ascii_runtime no_json" and cfg = "defaults\<lparr> fallback_watch := False \<rparr>" and tr = "[]"]
    by (simp add: failing_def s plain_def) (simp add: str_def)
  ultimately show ?thesis by (simp add: attempts_two c)
qed

section \<open>The order of the resolution strategies\<close>

lemma first_http_line_nonempty: "first_http_line t = Some m \<Longrightarrow> m \<noteq> []"
  by (auto simp add: first_http_line_def find_Some_iff startswith_def str_def split: if_splits)

lemma direct_result:
  "(if truthy_str m then (case m of Some l \<Rightarrow> Some (PStr l) | None \<Rightarrow> None) else None) = map_option PStr m"
  if "\<And>l. m = Some l \<Longrightarrow> l \<noteq> []"
  using that by (cases m) (auto simp add: truthy_str_def)

lemma try_default_direct:
  "try_default orc u tmo ck cfb n tr = direct_url orc [str ''-g'', u] tmo ck cfb n tr"
proof -
  obtain r t where r: "run_yt_dlp_cmd_with_retries orc [str ''-g'', u] ck cfb tmo n (3 / 2) tr = (r, t)"
    by (cases "run_yt_dlp_cmd_with_retries orc [str ''-g'', u] ck cfb tmo n (3 / 2) tr")
  show ?thesis
  proof (cases r)
    case (Inl e)
    with r show ?thesis by (simp add: try_default_def direct_url_def)
  next
    case (Inr proc)
    with r show ?thesis
      by (simp add: try_default_def direct_url_def Let_def direct_result first_http_line_nonempty)
  qed
qed

lemma try_format_direct:
  "try_format orc u f tmo ck cfb n tr =
     (if f \<noteq> [] then direct_url orc [str ''-f'', f, str ''-g'', u] tmo ck cfb n tr else (None, tr))"
proof -
  obtain r t where r: "run_yt_dlp_cmd_with_retries orc [str ''-f'', f, str ''-g'', u] ck cfb tmo n (3 / 2) tr = (r, t)"
    by (cases "run_yt_dlp_cmd_with_retries orc [str ''-f'', f, str ''-g'', u] ck cfb tmo n (3 / 2) tr")
  show ?thesis
  proof (cases r)
    case (Inl e)
    with r show ?thesis by (simp add: try_format_def direct_url_def)
  next
    case (Inr proc)
    with r show ?thesis
      by (simp add: try_format_def direct_url_def Let_def direct_result first_http_line_nonempty)
  qed
qed

lemma first_truthy_urls:
  "first_truthy (map url_of fs @ rest) =
     (case first_url_loop fs of Inl e \<Rightarrow> None | Inr (Some v) \<Rightarrow> Some v | Inr None \<Rightarrow> first_truthy rest)"
proof (induction fs)
  case Nil
  then show ?case by simp
next
  case (Cons f fs)
  then show ?case
    by (cases "py_get f (str ''url'')") (simp_all add: url_of_def)
qed

lemma first_truthy_segmented:
  "first_truthy (map segmented_url_of fs @ rest) =
     (case m3u8_loop fs of Inl e \<Rightarrow> None | Inr (Some v) \<Rightarrow> Some v | Inr None \<Rightarrow> first_truthy rest)"
proof (induction fs)
  case Nil
  then show ?case by simp
next
  case (Cons f fs)
  show ?case
  proof (cases "py_get f (str ''url'')")
    case (Inl e)
    then show ?thesis by (simp add: segmented_url_of_def url_of_def)
  next
    case u: (Inr urlf)
    show ?thesis
    proof (cases "truthy urlf")
      case False
      with u Cons show ?thesis by (simp add: segmented_url_of_def url_of_def)
    next
      case True
      with u Cons show ?thesis
        by (auto simp add: segmented_url_of_def url_of_def segmented_def
            split: sum.splits bool.splits)
    qed
  qed
qed

lemma scan_parsed_candidates:
  "(case scan_parsed (PDict d) of Inl e \<Rightarrow> None | Inr r \<Rightarrow> r) = first_truthy (candidates d)"
proof (cases "truthy (dict_get d (str ''url''))")
  case True
  then show ?thesis by (simp add: scan_parsed_def candidates_def)
next
  case top: False
  let ?req = "case dict_get d (str ''requested_formats'') of PList req \<Rightarrow> map url_of req | other \<Rightarrow> []"
  let ?fmts = "case py_iter (py_or (dict_get d (str ''formats'')) (PList [])) of
          Inl e \<Rightarrow> [Inl e]
        | Inr fmts \<Rightarrow> map segmented_url_of fmts @ map url_of fmts"
  have c: "first_truthy (candidates d) = first_truthy (?req @ ?fmts)"
    using top by (simp add: candidates_def)
  have f: "first_truthy ?fmts =
      (case py_iter (py_or (dict_get d (str ''formats'')) (PList [])) of
         Inl e \<Rightarrow> None
       | Inr fmts \<Rightarrow>
           (case m3u8_loop fmts of
              Inl e \<Rightarrow> None
            | Inr (Some u) \<Rightarrow> Some u
            | Inr None \<Rightarrow> (case first_url_loop fmts of Inl e \<Rightarrow> None | Inr r \<Rightarrow> r)))"
    using first_truthy_urls[of _ "[]"]
    by (auto simp add: first_truthy_segmented split: sum.splits option.splits)
  have r: "first_truthy (?req @ ?fmts) =
      (case (case dict_get d (str ''requested_formats'') of
               PList req \<Rightarrow> if req \<noteq> [] then first_url_loop req else Inr None
             | other \<Rightarrow> Inr None) of
         Inl e \<Rightarrow> None
       | Inr (Some u) \<Rightarrow> Some u
       | Inr None \<Rightarrow> first_truthy ?fmts)"
    by (cases "dict_get d (str ''requested_formats'')") (simp_all add: first_truthy_urls)
  show ?thesis
    unfolding c r f using top
    by (auto simp add: scan_parsed_def split: sum.splits option.splits)
qed

lemma scan_parsed_other: "(\<And>d. v \<noteq> PDict d) \<Longrightarrow> scan_parsed v = Inr None"
  by (cases v) (auto simp add: scan_parsed_def)

lemma try_json_metadata:
  "try_json rt orc u tmo ck cfb n tr = json_metadata rt orc u tmo ck cfb n tr"
proof -
  obtain r t where r: "run_yt_dlp_cmd_with_retries orc [str ''-j'', u] ck cfb tmo n (3 / 2) tr = (r, t)"
    by (cases "run_yt_dlp_cmd_with_retries orc [str ''-j'', u] ck cfb tmo n (3 / 2) tr")
  show ?thesis
  proof (cases r)
    case (Inl e)
    with r show ?thesis by (simp add: try_json_def json_metadata_def)
  next
    case (Inr proc)
    have "(case json_loads rt out of
             Inl e \<Rightarrow> None
           | Inr parsed \<Rightarrow> (case scan_parsed parsed of Inl e \<Rightarrow> None | Inr r \<Rightarrow> r)) =
          (case json_loads rt out of Inr (PDict d) \<Rightarrow> first_truthy (candidates d) | other \<Rightarrow> None)" for out
    proof (cases "json_loads rt out")
      case (Inl e)
      then show ?thesis by simp
    next
      case p: (Inr parsed)
      then show ?thesis
        by (cases parsed) (simp_all add: scan_parsed_candidates scan_parsed_other)
    qed
    with r Inr show ?thesis by (simp add: try_json_def json_metadata_def Let_def)
  qed
qed

lemma stream_first_yield:
  "get_stream_url_with_ytdlp rt orc u f tmo ck cfb n tr =
     (case fetchStreamEndpoint rt orc u f tmo ck cfb n tr of
        (Some v, t) \<Rightarrow> (Inr v, t)
      | (None, t) \<Rightarrow> (Inr PNone, t))"
proof -
  obtain a t1 where a: "direct_url orc [str ''-g'', u] tmo ck cfb n tr = (a, t1)"
    by (cases "direct_url orc [str ''-g'', u] tmo ck cfb n tr")
  obtain b t2 where b: "direct_url orc [str ''-f'', f, str ''-g'', u] tmo ck cfb n t1 = (b, t2)"
    by (cases "direct_url orc [str ''-f'', f, str ''-g'', u] tmo ck cfb n t1")
  obtain c t3 where c: "json_metadata rt orc u tmo ck cfb n t2 = (c, t3)"
    by (cases "json_metadata rt orc u tmo ck cfb n t2")
  obtain c' t3' where c': "json_metadata rt orc u tmo ck cfb n t1 = (c', t3')"
    by (cases "json_metadata rt orc u tmo ck cfb n t1")
  show ?thesis
    by (cases a; cases b; cases c; cases c')
       (simp_all add: get_stream_url_with_ytdlp_def fetchStreamEndpoint_def
          try_default_direct try_format_direct try_json_metadata a b c c')
qed



lemma retries_scripted:
  "run_yt_dlp_cmd_with_retries (scripted m d j) args ck cfb tmo n b tr =
     (scripted m d j (runs tr) (command_line args ck cfb) tmo, tr @ [Run (command_line args ck cfb) tmo])"
proof -
  have "\<exists>p. scripted m d j (runs tr) (command_line args ck cfb) tmo = Inr p"
    by (simp add: scripted_def)
  then obtain p where "scripted m d j (runs tr) (command_line args ck cfb) tmo = Inr p" ..
  then show ?thesis
    by (simp add: run_yt_dlp_cmd_with_retries_def retry_loop_success)
qed

lemma command_line_plain: "command_line args None None = str ''yt-dlp'' # args"
  by (simp add: command_line_def truthy_str_def)

lemma scripted_answers:
  "scripted m d j i [str ''yt-dlp'', str ''--print'', fm, u] t = Inr \<lparr> stdout = m, stderr = [] \<rparr>"
  "scripted m d j i [str ''yt-dlp'', str ''-g'', u] t = Inr \<lparr> stdout = d, stderr = [] \<rparr>"
  "scripted m d j i [str ''yt-dlp'', str ''-f'', str ''worstvideo+bestaudio/best'', str ''-g'', u] t =
     Inr \<lparr> stdout = d, stderr = [] \<rparr>"
  "scripted m d j i [str ''yt-dlp'', str ''-j'', u] t = Inr \<lparr> stdout = j, stderr = [] \<rparr>"
  by (simp_all add: scripted_def str_def)

lemma first_http_line_empty: "first_http_line [] = None"
  by (simp add: first_http_line_def)

lemma direct_url_scripted_empty:
  "direct_url (scripted m [] j) [str ''-g'', u] tmo None None n tr =
     (None, tr @ [Run [str ''yt-dlp'', str ''-g'', u] tmo])"
  "direct_url (scripted m [] j) [str ''-f'', str ''worstvideo+bestaudio/best'', str ''-g'', u] tmo None None n tr =
     (None, tr @ [Run [str ''yt-dlp'', str ''-f'', str ''worstvideo+bestaudio/best'', str ''-g'', u] tmo])"
  by (simp_all add: direct_url_def retries_scripted command_line_plain scripted_answers
      proc_output_def strip_Nil first_http_line_empty)





section \<open>The fallback endpoint and the totality of the worker\<close>

lemma first_truthy_truthy: "first_truthy cs = Some v \<Longrightarrow> truthy v"
proof (induction cs)
  case Nil
  then show ?case by simp
next
  case (Cons c cs)
  then show ?case by (cases c) (auto split: if_splits)
qed

lemma direct_url_string:
  assumes "fst (direct_url orc args tmo ck cfb n tr) = Some v"
  shows "\<exists>l. v = PStr l \<and> l \<noteq> []"
  using assms first_http_line_nonempty
  by (auto simp add: direct_url_def split: prod.splits sum.splits)

lemma try_default_string:
  assumes "fst (try_default orc u tmo ck cfb n tr) = Some v"
  shows "\<exists>l. v = PStr l \<and> l \<noteq> []"
  using assms unfolding try_default_direct by (rule direct_url_string)

lemma try_format_string:
  assumes "fst (try_format orc u f tmo ck cfb n tr) = Some v"
  shows "\<exists>l. v = PStr l \<and> l \<noteq> []"
  using assms direct_url_string[of orc "[str ''-f'', f, str ''-g'', u]" tmo ck cfb n tr v]
  unfolding try_format_direct by (auto split: if_splits)

lemma try_json_truthy:
  assumes "fst (try_json rt orc u tmo ck cfb n tr) = Some v"
  shows "truthy v"
  using assms first_truthy_truthy unfolding try_json_metadata
  by (auto simp add: json_metadata_def split: prod.splits sum.splits if_splits pyval.splits)

lemma stream_never_raises:
  "\<exists>v. fst (get_stream_url_with_ytdlp rt orc u f tmo ck cfb n tr) = Inr v"
  by (simp add: stream_chain split: option.splits)

lemma stream_none_or_truthy:
  assumes "fst (get_stream_url_with_ytdlp rt orc u f tmo ck cfb n tr) = Inr v"
  shows "v = PNone \<or> truthy v"
  using assms try_default_string try_format_string try_json_truthy
  unfolding stream_chain
  by (fastforce split: option.splits)

lemma failed_resolution_is_none:
  assumes "resolution_fails (fst (get_stream_url_with_ytdlp rt orc u f tmo ck cfb n tr))"
  shows "fst (get_stream_url_with_ytdlp rt orc u f tmo ck cfb n tr) = Inr PNone"
proof -
  obtain v where v: "fst (get_stream_url_with_ytdlp rt orc u f tmo ck cfb n tr) = Inr v"
    using stream_never_raises by blast
  with assms have "\<not> truthy v" by (simp add: resolution_fails_def)
  with stream_none_or_truthy[OF v] v show ?thesis by simp
qed


lemma worker_failed_resolution:
  assumes "strip raw \<noteq> []"
    and "resolution_fails (fst (get_stream_url_with_ytdlp rt orc (normalize_input_line raw) (fmt cfg)
           (timeout cfg) (cookies cfg) (cookies_from_browser cfg) (retries cfg)
           (snd (worker_meta orc (strip raw) cfg tr))))"
  shows "\<exists>r. fst (check_url_entry_buffered rt orc raw cfg tr) = Inr r
     \<and> stream_url r = (if fallback_watch cfg then Some (normalize_input_line raw) else None)"
  using normalize_nonempty[OF assms(1)] assms(2) failed_resolution_is_none[OF assms(2)]
  by (simp add: worker_result[OF assms(1)] worker_stream_fst normalize_strip)

text \<open>
  C5. For a non-blank input line whose stream resolution fails (it raises, or returns
  \<open>None\<close>), the worker returns a record. With the fallback flag its stream endpoint is
  the normalized watch URL of the line; without it the record has no endpoint, and the
  loop over a buffer never writes it.
\<close>

theorem fallback_endpoint:
  "strip raw \<noteq> []
   \<and> resolution_fails (fst (get_stream_url_with_ytdlp rt orc (normalize_input_line raw) (fmt cfg)
         (timeout cfg) (cookies cfg) (cookies_from_browser cfg) (retries cfg)
         (snd (worker_meta orc (strip raw) cfg tr)))) \<longrightarrow>
   (\<exists>r. fst (check_url_entry_buffered rt orc raw cfg tr) = Inr r
      \<and> stream_url r = (if fallback_watch cfg then Some (normalize_input_line raw) else None)
      \<and> (\<not> fallback_watch cfg \<longrightarrow> r \<notin> set (emitted rt' sp fav buf)))"
proof
  assume a: "strip raw \<noteq> []
   \<and> resolution_fails (fst (get_stream_url_with_ytdlp rt orc (normalize_input_line raw) (fmt cfg)
         (timeout cfg) (cookies cfg) (cookies_from_browser cfg) (retries cfg)
         (snd (worker_meta orc (strip raw) cfg tr))))"
  then obtain r where r: "fst (check_url_entry_buffered rt orc raw cfg tr) = Inr r"
    "stream_url r = (if fallback_watch cfg then Some (normalize_input_line raw) else None)"
    using worker_failed_resolution[of raw rt orc cfg tr] by blast
  have "r \<notin> set (emitted rt' sp fav buf)" if "\<not> fallback_watch cfg"
    using that r(2) emitted_truthy[of r rt' sp fav buf] by (auto simp add: truthy_str_def)
  with r show "\<exists>r. fst (check_url_entry_buffered rt orc raw cfg tr) = Inr r
      \<and> stream_url r = (if fallback_watch cfg then Some (normalize_input_line raw) else None)
      \<and> (\<not> fallback_watch cfg \<longrightarrow> r \<notin> set (emitted rt' sp fav buf))"
    by blast
qed

lemma worker_type_error:
  "fst (check_url_entry_buffered rt orc raw cfg tr) = Inl TypeError \<longleftrightarrow>
     strip raw \<noteq> []
     \<and> (\<exists>v. fst (get_stream_url_with_ytdlp rt orc (normalize_input_line raw) (fmt cfg)
              (timeout cfg) (cookies cfg) (cookies_from_browser cfg) (retries cfg)
              (snd (worker_meta orc (strip raw) cfg tr))) = Inr v
            \<and> truthy v \<and> (\<forall>l. v \<noteq> PStr l))"
proof (cases "strip raw = []")
  case True
  then show ?thesis by (simp add: check_url_entry_buffered_def Let_def)
next
  case ne: False
  obtain v where v: "fst (get_stream_url_with_ytdlp rt orc (normalize_input_line raw) (fmt cfg)
              (timeout cfg) (cookies cfg) (cookies_from_browser cfg) (retries cfg)
              (snd (worker_meta orc (strip raw) cfg tr))) = Inr v"
    using stream_never_raises by blast
  show ?thesis
  proof (cases "truthy v")
    case False
    with v ne normalize_nonempty[OF ne] show ?thesis
      by (simp add: worker_result worker_stream_fst normalize_strip resolution_fails_def)
  next
    case True
    with v ne show ?thesis
      by (cases v) (simp_all add: worker_result worker_stream_fst normalize_strip resolution_fails_def)
  qed
qed

lemma worker_returns_or_type_error:
  "(\<exists>r. fst (check_url_entry_buffered rt orc raw cfg tr) = Inr r)
   \<or> fst (check_url_entry_buffered rt orc raw cfg tr) = Inl TypeError"
proof (cases "strip raw = []")
  case True
  then show ?thesis by (simp add: check_url_entry_buffered_def Let_def)
next
  case False
  then show ?thesis
    by (simp add: worker_result split: pyval.splits)
qed

lemma collect_failed_future:
  "fut i = Inl e \<Longrightarrow> collect fut (cs @ [i]) = (fst (collect fut cs), snd (collect fut cs) @ [Future_error e])"
  by (simp add: collect_snoc collect_step_def)

text \<open>
  C10. The worker returns its tuple or raises a \<open>TypeError\<close>, and nothing else. The
  metadata step and the stream resolution never raise. The worker raises exactly when
  the line is not blank and the stream resolution returns a truthy value that is not a
  string, on which the search of the expiry pattern fails; the two direct strategies
  yield strings only, so such a value is a \<open>url\<close> of the JSON metadata. A future that
  raises is reported by the coordinator and adds nothing to the buffer.
\<close>

theorem worker_total_on_string_endpoints:
  "((\<exists>r. fst (check_url_entry_buffered rt orc raw cfg tr) = Inr r)
      \<or> fst (check_url_entry_buffered rt orc raw cfg tr) = Inl TypeError)
   \<and> (fst (check_url_entry_buffered rt orc raw cfg tr) = Inl TypeError \<longleftrightarrow>
        strip raw \<noteq> []
        \<and> (\<exists>v. fst (get_stream_url_with_ytdlp rt orc (normalize_input_line raw) (fmt cfg)
                 (timeout cfg) (cookies cfg) (cookies_from_browser cfg) (retries cfg)
                 (snd (worker_meta orc (strip raw) cfg tr))) = Inr v
               \<and> truthy v \<and> (\<forall>l. v \<noteq> PStr l)))
   \<and> (\<exists>v. fst (get_stream_url_with_ytdlp rt orc u f tmo ck cfb n tr') = Inr v)
   \<and> (fst (try_default orc u tmo ck cfb n tr') = Some w \<longrightarrow> (\<exists>l. w = PStr l))
   \<and> (fst (try_format orc u f tmo ck cfb n tr') = Some w \<longrightarrow> (\<exists>l. w = PStr l))
   \<and> (fut i = Inl e \<longrightarrow>
        collect fut (cs @ [i]) = (fst (collect fut cs), snd (collect fut cs) @ [Future_error e]))"
proof (intro conjI impI)
  show "(\<exists>r. fst (check_url_entry_buffered rt orc raw cfg tr) = Inr r)
      \<or> fst (check_url_entry_buffered rt orc raw cfg tr) = Inl TypeError"
    by (rule worker_returns_or_type_error)
  show "fst (check_url_entry_buffered rt orc raw cfg tr) = Inl TypeError \<longleftrightarrow>
        strip raw \<noteq> []
        \<and> (\<exists>v. fst (get_stream_url_with_ytdlp rt orc (normalize_input_line raw) (fmt cfg)
                 (timeout cfg) (cookies cfg) (cookies_from_browser cfg) (retries cfg)
                 (snd (worker_meta orc (strip raw) cfg tr))) = Inr v
               \<and> truthy v \<and> (\<forall>l. v \<noteq> PStr l))"
    by (rule worker_type_error)
  show "\<exists>v. fst (get_stream_url_with_ytdlp rt orc u f tmo ck cfb n tr') = Inr v"
    by (rule stream_never_raises)
  show "\<exists>l. w = PStr l" if "fst (try_default orc u tmo ck cfb n tr') = Some w"
    using try_default_string[OF that] by blast
  show "\<exists>l. w = PStr l" if "fst (try_format orc u f tmo ck cfb n tr') = Some w"
    using try_format_string[OF that] by blast
  show "collect fut (cs @ [i]) = (fst (collect fut cs), snd (collect fut cs) @ [Future_error e])"
    if "fut i = Inl e"
    using that by (rule collect_failed_future)
qed

section \<open>Example runs of the worker and of the coordinator\<close>


lemma proc_output_stdout: "proc_output \<lparr> stdout = d, stderr = [] \<rparr> = d"
  by (simp add: proc_output_def)

lemma direct_url_scripted_line:
  assumes "first_http_line (strip d) = Some l"
  shows "direct_url (scripted m d j) [str ''-g'', u] tmo None None n tr =
     (Some (PStr l), tr @ [Run [str ''yt-dlp'', str ''-g'', u] tmo])"
  using assms
  by (simp add: direct_url_def retries_scripted command_line_plain scripted_answers proc_output_stdout)

lemma stream_scripted_line:
  assumes "first_http_line (strip d) = Some l"
  shows "get_stream_url_with_ytdlp rt (scripted m d j) u f tmo None None n tr =
     (Inr (PStr l), tr @ [Run [str ''yt-dlp'', str ''-g'', u] tmo])"
  by (simp add: stream_first_yield fetchStreamEndpoint_def direct_url_scripted_line[OF assms])


lemma first_line_examples:
  "first_http_line (strip (str ''http://h/a'')) = Some (str ''http://h/a'')"
  "first_http_line (strip (str ''http://h/b'')) = Some (str ''http://h/b'')"
  by (simp_all add: first_http_line_def splitlines_def str_def strip_def isspace_def
      is_linebreak_def startswith_def)


lemma strip_examples:
  "strip (str ''a'') = str ''a''" "strip (str ''b'') = str ''b''" "strip (str ''abc'') = str ''abc''"
  by (simp_all add: str_def strip_def isspace_def)


lemma failing_resolution:
  "resolution_fails (fst (get_stream_url_with_ytdlp rt failing u f tmo ck cfb n tr))"
  by (simp add: stream_all_fail failing_def resolution_fails_def)

lemma watch_abc:
  "normalize_input_line (str ''abc'') = str ''https://www.youtube.com/watch?v=abc''"
  by (simp add: normalize_input_line_def Let_def str_def strip_def isspace_def startswith_def)

theorem fallback_endpoint_witness:
  "(\<exists>r. fst (check_url_entry_buffered (ascii_runtime no_json) failing (str ''abc'') defaults []) = Inr r
       \<and> stream_url r = Some (str ''https://www.youtube.com/watch?v=abc''))
   \<and> (\<exists>r. fst (check_url_entry_buffered (ascii_runtime no_json) failing (str ''abc'')
               (defaults\<lparr> fallback_watch := False \<rparr>) []) = Inr r
       \<and> stream_url r = None
       \<and> r \<notin> set (emitted (ascii_runtime no_json) None (str ''http://i/f.png'')
                     [plain (str ''abc'') None (Some (str ''abc'')) None None]))"
proof -
  have ne: "strip (str ''abc'') \<noteq> []" unfolding strip_examples by (simp add: str_def)
  have "\<exists>r. fst (check_url_entry_buffered (ascii_runtime no_json) failing (str ''abc'') defaults []) = Inr r
       \<and> stream_url r = Some (str ''https://www.youtube.com/watch?v=abc'')"
    using fallback_endpoint [where raw = "str ''abc''" and rt = "ascii_runtime no_json"
        and orc = failing and cfg = defaults and tr = "[]"] ne failing_resolution
    by (simp add: watch_abc defaults_def)
  moreover have "\<exists>r. fst (check_url_entry_buffered (ascii_runtime no_json) failing (str ''abc'')
               (defaults\<lparr> fallback_watch := False \<rparr>) []) = Inr r
       \<and> stream_url r = None
       \<and> r \<notin> set (emitted (ascii_runtime no_json) None (str ''http://i/f.png'')
                     [plain (str ''abc'') None (Some (str ''abc'')) None None])"
    using fallback_endpoint [where raw = "str ''abc''" and rt = "ascii_runtime no_json"
        and orc = failing and cfg = "defaults\<lparr> fallback_watch := False \<rparr>" and tr = "[]"
        and rt' = "ascii_runtime no_json" and sp = None and fav = "str ''http://i/f.png''"
        and buf = "[plain (str ''abc'') None (Some (str ''abc'')) None None]"]
      ne failing_resolution
    by (simp add: defaults_def)
  ultimately show ?thesis by blast
qed

lemma strip_numeric_text: "strip numeric_url_text = numeric_url_text"
  by (rule strip_fixed) (simp_all add: numeric_url_text_def str_def isspace_def)

lemma json_metadata_numeric:
  "json_metadata (ascii_runtime numeric_url_json) (scripted m d numeric_url_text) u tmo None None n tr =
     (Some (PInt 5), tr @ [Run [str ''yt-dlp'', str ''-j'', u] tmo])"
proof -
  have ne: "numeric_url_text \<noteq> []" by (simp add: numeric_url_text_def str_def)
  have l: "json_loads (ascii_runtime numeric_url_json) numeric_url_text = Inr (PDict [(str ''url'', PInt 5)])"
    by (simp add: ascii_runtime_def numeric_url_json_def json_table_def)
  have c: "first_truthy (candidates [(str ''url'', PInt 5)]) = Some (PInt 5)"
    by (simp add: candidates_def dict_get_def)
  show ?thesis
    using ne
    by (simp add: json_metadata_def retries_scripted command_line_plain scripted_answers
        proc_output_stdout strip_numeric_text l c)
qed

lemma stream_numeric:
  "fst (get_stream_url_with_ytdlp (ascii_runtime numeric_url_json) (scripted [] [] numeric_url_text) u
          (str ''worstvideo+bestaudio/best'') tmo None None n tr) = Inr (PInt 5)"
proof -
  have "str ''worstvideo+bestaudio/best'' \<noteq> []" by (simp add: str_def)
  then show ?thesis
    by (simp add: stream_first_yield fetchStreamEndpoint_def direct_url_scripted_empty
        json_metadata_numeric)
qed

lemma defaults_fields:
  "fmt defaults = str ''worstvideo+bestaudio/best''" "cookies defaults = None"
  "cookies_from_browser defaults = None" "timeout defaults = 60" "retries defaults = 2"
  by (simp_all add: defaults_def)

lemma worker_numeric:
  "fst (check_url_entry_buffered (ascii_runtime numeric_url_json) (scripted [] [] numeric_url_text)
          (str ''a'') defaults []) = Inl TypeError"
  by (simp add: worker_type_error defaults_fields stream_numeric strip_examples) (simp add: str_def)

theorem worker_total_on_string_endpoints_witness:
  "(\<exists>r. fst (check_url_entry_buffered (ascii_runtime no_json) (scripted [] (str ''http://h/a'') [])
             (str ''a'') defaults []) = Inr r)
   \<and> fst (check_url_entry_buffered (ascii_runtime numeric_url_json) (scripted [] [] numeric_url_text)
           (str ''a'') defaults []) = Inl TypeError"
proof -
  have ne: "str ''a'' \<noteq> []" by (simp add: str_def)
  have g: "fst (get_stream_url_with_ytdlp (ascii_runtime no_json) (scripted [] (str ''http://h/a'') [])
        u f tmo None None n tr) = Inr (PStr (str ''http://h/a''))" for u f tmo n tr
    by (simp add: stream_scripted_line[OF first_line_examples(1)])
  have "\<exists>r. fst (check_url_entry_buffered (ascii_runtime no_json) (scripted [] (str ''http://h/a'') [])
             (str ''a'') defaults []) = Inr r"
    using worker_total_on_string_endpoints [where rt = "ascii_runtime no_json"
        and orc = "scripted [] (str ''http://h/a'') []" and raw = "str ''a''" and cfg = defaults
        and tr = "[]" and u = "str ''u''" and f = "[]" and tmo = 60 and ck = None and cfb = None
        and n = 2 and tr' = "[]" and w = PNone and i = 0 and e = TypeError and cs = "[]"
        and fut = "\<lambda>k. Inl TypeError"]
    by (auto simp add: defaults_fields g)
  moreover have "fst (check_url_entry_buffered (ascii_runtime numeric_url_json)
        (scripted [] [] numeric_url_text) (str ''a'') defaults []) = Inl TypeError"
    using worker_total_on_string_endpoints [where rt = "ascii_runtime numeric_url_json"
        and orc = "scripted [] [] numeric_url_text" and raw = "str ''a''" and cfg = defaults
        and tr = "[]" and u = "str ''u''" and f = "[]" and tmo = 60 and ck = None and cfb = None
        and n = 2 and tr' = "[]" and w = PNone and i = 0 and e = TypeError and cs = "[]"
        and fut = "\<lambda>k. Inl TypeError"] ne
    by (simp add: defaults_fields stream_numeric strip_examples)
  ultimately show ?thesis by blast
qed

text \<open>
  The resolver prints no direct URL, and metadata whose \<open>url\<close> is the number 5. The
  worker raises, and the coordinator reports the failed future and buffers nothing.
\<close>

theorem worker_raises_counterexample:
  "fst (check_url_entry_buffered (ascii_runtime numeric_url_json) (scripted [] [] numeric_url_text)
          (str ''a'') defaults []) = Inl TypeError
   \<and> collect (future_result (ascii_runtime numeric_url_json) defaults
                (every_worker (scripted [] [] numeric_url_text)) [str ''a'']) [0] =
       ([], [Future_error TypeError])"
  by (simp add: worker_numeric collect_def collect_step_def future_result_def every_worker_def)









end
